theory Spec2Isabelle
  imports Complex_Main "HOL-Library.Sublist" "HOL-Library.Code_Target_Nat"
begin

section \<open>JavaScript values\<close>

text \<open>
  The gallery script \<^verbatim>\<open>scripts/update-gallery.js\<close> handles EXIF tag values, which are
  dynamically typed: a tag's description or value is a string, a number, or absent.
  A number is modelled as an exact rational, or one of the three special values of a
  double; the rounding of IEEE-754 arithmetic, the sign of zero and exponent notation in
  the printed form of a number are left out.
\<close>

datatype jsnum = Fin rat | PosInf | NegInf | NaN

datatype jsval = JUndefined | JBool bool | JNum jsnum | JStr string

text \<open>\<^verbatim>\<open>!val\<close> is false exactly for a truthy value.\<close>

fun truthy :: "jsval \<Rightarrow> bool" where
  "truthy JUndefined = False"
| "truthy (JBool b) = b"
| "truthy (JNum (Fin r)) = (r \<noteq> 0)"
| "truthy (JNum NaN) = False"
| "truthy (JNum PosInf) = True"
| "truthy (JNum NegInf) = True"
| "truthy (JStr s) = (s \<noteq> [])"

text \<open>\<^verbatim>\<open>a || b\<close>\<close>

definition js_or :: "jsval \<Rightarrow> jsval \<Rightarrow> jsval" where
  "js_or a b = (if truthy a then a else b)"

subsection \<open>Characters and digits\<close>

definition is_digit :: "char \<Rightarrow> bool" where
  "is_digit c = (48 \<le> (of_char c :: nat) \<and> (of_char c :: nat) \<le> 57)"

definition digit_val :: "char \<Rightarrow> nat" where
  "digit_val c = of_char c - 48"

definition digits_val :: "string \<Rightarrow> nat" where
  "digits_val ds = foldl (\<lambda>a c. 10 * a + digit_val c) 0 ds"

definition digit_char :: "nat \<Rightarrow> char" where
  "digit_char d = ''0123456789'' ! d"

fun show_nat :: "nat \<Rightarrow> string" where
  "show_nat n = (if n < 10 then [digit_char n] else show_nat (n div 10) @ [digit_char (n mod 10)])"

declare show_nat.simps [simp del]

text \<open>\<^verbatim>\<open>String.prototype.toLowerCase\<close> and \<^verbatim>\<open>toUpperCase\<close>, on the ASCII letters.\<close>

definition lower_char :: "char \<Rightarrow> char" where
  "lower_char c = (if 65 \<le> (of_char c :: nat) \<and> (of_char c :: nat) \<le> 90
                   then char_of (of_char c + 32 :: nat) else c)"

definition upper_char :: "char \<Rightarrow> char" where
  "upper_char c = (if 97 \<le> (of_char c :: nat) \<and> (of_char c :: nat) \<le> 122
                   then char_of (of_char c - 32 :: nat) else c)"

definition toLowerCase :: "string \<Rightarrow> string" where
  "toLowerCase s = map lower_char s"

subsection \<open>Numbers to strings and back\<close>

text \<open>
  The digits after the decimal point of a rational in \<open>[0, 1)\<close>, at most \<open>k\<close> of them.
  A double prints with up to 17 significant digits; the statements below do not depend
  on the digits of a fraction.
\<close>

fun frac_digits :: "nat \<Rightarrow> rat \<Rightarrow> string" where
  "frac_digits 0 r = []"
| "frac_digits (Suc k) r =
     (if r = 0 then []
      else digit_char (nat \<lfloor>r * 10\<rfloor>) # frac_digits k (r * 10 - of_int \<lfloor>r * 10\<rfloor>))"

definition show_rat :: "rat \<Rightarrow> string" where
  "show_rat r =
     (let a = \<bar>r\<bar>; ip = \<lfloor>a\<rfloor>; fp = a - of_int ip
      in (if r < 0 then ''-'' else '''') @ show_nat (nat ip) @
         (if fp = 0 then '''' else CHR ''.'' # frac_digits 17 fp))"

text \<open>\<^verbatim>\<open>Number.prototype.toString\<close>\<close>

fun num_toString :: "jsnum \<Rightarrow> string" where
  "num_toString (Fin r) = show_rat r"
| "num_toString PosInf = ''Infinity''"
| "num_toString NegInf = ''-Infinity''"
| "num_toString NaN = ''NaN''"

text \<open>\<^verbatim>\<open>val.toString()\<close>, called on truthy values only.\<close>

fun toString :: "jsval \<Rightarrow> string" where
  "toString (JStr s) = s"
| "toString (JNum n) = num_toString n"
| "toString (JBool b) = (if b then ''true'' else ''false'')"
| "toString JUndefined = ''undefined''"

definition is_space :: "char \<Rightarrow> bool" where
  "is_space c = (c \<in> set [CHR '' '', CHR 0x09, CHR 0x0A, CHR 0x0B, CHR 0x0C, CHR 0x0D])"

text \<open>
  The exponent part of a decimal literal: \<open>e\<close> or \<open>E\<close>, an optional sign and at least
  one digit; anything else is not part of the number.
\<close>

definition parse_exponent :: "string \<Rightarrow> int" where
  "parse_exponent s =
     (case s of
        [] \<Rightarrow> 0
      | c # t \<Rightarrow>
          if c = CHR ''e'' \<or> c = CHR ''E'' then
            (case t of
               [] \<Rightarrow> 0
             | d # u \<Rightarrow>
                 if d = CHR ''-'' then
                   (if takeWhile is_digit u = [] then 0 else - int (digits_val (takeWhile is_digit u)))
                 else if d = CHR ''+'' then int (digits_val (takeWhile is_digit u))
                 else int (digits_val (takeWhile is_digit t)))
          else 0)"

definition scale10 :: "rat \<Rightarrow> int \<Rightarrow> rat" where
  "scale10 r e = (if e < 0 then r / 10 ^ nat (- e) else r * 10 ^ nat e)"

text \<open>An unsigned decimal literal at the start of a string, or \<open>NaN\<close>.\<close>

definition parse_unsigned :: "string \<Rightarrow> jsnum" where
  "parse_unsigned u =
     (if take 8 u = ''Infinity'' then PosInf
      else
        let ip = takeWhile is_digit u;
            r1 = dropWhile is_digit u;
            fp = (case r1 of [] \<Rightarrow> [] | c # t \<Rightarrow> if c = CHR ''.'' then takeWhile is_digit t else []);
            r2 = (case r1 of [] \<Rightarrow> [] | c # t \<Rightarrow> if c = CHR ''.'' then dropWhile is_digit t else r1)
        in if ip = [] \<and> fp = [] then NaN
           else Fin (scale10 (of_nat (digits_val ip) + of_nat (digits_val fp) / 10 ^ length fp)
                       (parse_exponent r2)))"

fun negate :: "jsnum \<Rightarrow> jsnum" where
  "negate (Fin r) = Fin (- r)"
| "negate PosInf = NegInf"
| "negate NegInf = PosInf"
| "negate NaN = NaN"

text \<open>
  \<^verbatim>\<open>parseFloat\<close> of a string: leading white space (the ASCII characters of it), a sign,
  a decimal literal; what follows the literal is ignored.
\<close>

definition parseFloat_str :: "string \<Rightarrow> jsnum" where
  "parseFloat_str s =
     (case dropWhile is_space s of
        [] \<Rightarrow> NaN
      | c # t \<Rightarrow>
          if c = CHR ''-'' then negate (parse_unsigned t)
          else if c = CHR ''+'' then parse_unsigned t
          else parse_unsigned (c # t))"

text \<open>
  \<^verbatim>\<open>parseFloat(val)\<close> converts its argument to a string first; for a number that gives the
  number back.
\<close>

fun parseFloat :: "jsval \<Rightarrow> jsnum" where
  "parseFloat (JStr s) = parseFloat_str s"
| "parseFloat (JNum n) = n"
| "parseFloat (JBool b) = NaN"
| "parseFloat JUndefined = NaN"

text \<open>\<^verbatim>\<open>num >= 1\<close>, \<^verbatim>\<open>num === 0\<close>, \<^verbatim>\<open>1 / num\<close> and \<^verbatim>\<open>Math.round\<close>.\<close>

fun ge_one :: "jsnum \<Rightarrow> bool" where
  "ge_one (Fin r) = (1 \<le> r)"
| "ge_one PosInf = True"
| "ge_one NegInf = False"
| "ge_one NaN = False"

fun is_zero :: "jsnum \<Rightarrow> bool" where
  "is_zero (Fin r) = (r = 0)"
| "is_zero PosInf = False"
| "is_zero NegInf = False"
| "is_zero NaN = False"

fun recip :: "jsnum \<Rightarrow> jsnum" where
  "recip (Fin r) = (if r = 0 then PosInf else Fin (1 / r))"
| "recip PosInf = Fin 0"
| "recip NegInf = Fin 0"
| "recip NaN = NaN"

fun math_round :: "jsnum \<Rightarrow> jsnum" where
  "math_round (Fin r) = Fin (of_int \<lfloor>r + 1 / 2\<rfloor>)"
| "math_round PosInf = PosInf"
| "math_round NegInf = NegInf"
| "math_round NaN = NaN"

section \<open>The formatters of the metadata extractor\<close>

text \<open>
  \<^verbatim>\<open>
  const formatShutter = (val) => {
      if (!val) return '';
      if (val.toString().includes('/')) return val; // Already fraction
      const num = parseFloat(val);
      if (num >= 1 || num === 0) return val;
      return `1/${Math.round(1 / num)}`;
  };
  \<close>
\<close>

definition formatShutter :: "jsval \<Rightarrow> jsval" where
  "formatShutter val =
     (if \<not> truthy val then JStr ''''
      else if CHR ''/'' \<in> set (toString val) then val
      else let num = parseFloat val
           in if ge_one num \<or> is_zero num then val
              else JStr (''1/'' @ num_toString (math_round (recip num))))"

text \<open>
  \<^verbatim>\<open>
  const formatAperture = (val) => {
      if (!val) return '';
      const s = val.toString();
      return s.toLowerCase().startsWith('f') ? s : `f/${s}`;
  };
  \<close>
\<close>

definition startsWith :: "string \<Rightarrow> string \<Rightarrow> bool" where
  "startsWith s p = (take (length p) s = p)"

definition formatAperture :: "jsval \<Rightarrow> jsval" where
  "formatAperture val =
     (if \<not> truthy val then JStr ''''
      else let s = toString val
           in if startsWith (toLowerCase s) ''f'' then JStr s else JStr (''f/'' @ s))"

section \<open>Paths and file names\<close>

text \<open>
  A path is the list of its segments below a root directory (\<^verbatim>\<open>PHOTOS_DIR\<close> or
  \<^verbatim>\<open>THUMBS_DIR\<close>); the empty list is the root itself. The functions of Node's
  \<^verbatim>\<open>path\<close> module are modelled on single file names, with the POSIX separator.
\<close>

type_synonym path = "string list"

fun join_path :: "path \<Rightarrow> string" where
  "join_path [] = []"
| "join_path [s] = s"
| "join_path (s # t # ss) = s @ CHR ''/'' # join_path (t # ss)"

text \<open>The characters after the last dot of a name (the whole name if it has no dot).\<close>

definition after_last_dot :: "string \<Rightarrow> string" where
  "after_last_dot name = rev (takeWhile (\<lambda>c. c \<noteq> CHR ''.'') (rev name))"

text \<open>
  \<^verbatim>\<open>path.extname\<close>: from the last dot to the end; empty when there is no dot, when the
  only dot is the first character, and for the name \<^verbatim>\<open>..\<close>.
\<close>

definition extname :: "string \<Rightarrow> string" where
  "extname name =
     (if CHR ''.'' \<notin> set name \<or> Suc (length (after_last_dot name)) = length name \<or> name = ''..''
      then '''' else CHR ''.'' # after_last_dot name)"

text \<open>
  \<^verbatim>\<open>path.basename(p, suffix)\<close> on the last segment: the suffix is cut off when the name
  ends with it and is longer than it.
\<close>

definition basename :: "string \<Rightarrow> string \<Rightarrow> string" where
  "basename name ext =
     (if ext \<noteq> [] \<and> length ext < length name \<and> drop (length name - length ext) name = ext
      then take (length name - length ext) name else name)"

text \<open>\<^verbatim>\<open>s.replace(/\\/g, '/')\<close>\<close>

definition slashes :: "string \<Rightarrow> string" where
  "slashes s = map (\<lambda>c. if c = CHR 0x5C then CHR ''/'' else c) s"

text \<open>\<^verbatim>\<open>entry.name.replace(/\.[^/.]+$/, "").replace(/-/g, ' ')\<close>\<close>

definition titleOf :: "string \<Rightarrow> string" where
  "titleOf name =
     (let suf = after_last_dot name;
          stem = (if CHR ''.'' \<in> set name \<and> suf \<noteq> [] \<and> CHR ''/'' \<notin> set suf
                  then take (length name - Suc (length suf)) name else name)
      in map (\<lambda>c. if c = CHR ''-'' then CHR '' '' else c) stem)"

text \<open>
  \<^verbatim>\<open>
  let category = 'General';
  if (categoryPath) {
      category = categoryPath.split(path.sep)[0];
      category = category.charAt(0).toUpperCase() + category.slice(1);
  }
  \<close>
\<close>

definition categoryOf :: "path \<Rightarrow> string" where
  "categoryOf categoryPath =
     (case categoryPath of
        [] \<Rightarrow> ''General''
      | seg # _ \<Rightarrow> (case seg of [] \<Rightarrow> [] | c # cs \<Rightarrow> upper_char c # cs))"

text \<open>\<^verbatim>\<open>['.jpg', '.jpeg', '.png', '.webp'].includes(ext)\<close>\<close>

definition allowed :: "string \<Rightarrow> bool" where
  "allowed ext = (ext \<in> set [''.jpg'', ''.jpeg'', ''.png'', ''.webp''])"

section \<open>The file system\<close>

text \<open>
  The source tree under \<^verbatim>\<open>PHOTOS_DIR\<close> is a list of entries in the order
  \<^verbatim>\<open>readdirSync\<close> returns them; a file carries its bytes. The script never adds or
  removes an entry of this tree, it only rewrites files in place.
\<close>

type_synonym bytes = "nat list"

datatype entry = File string bytes | Dir string "entry list"

text \<open>
  The tree under \<^verbatim>\<open>THUMBS_DIR\<close> is a store from paths to nodes, since the script tests
  paths for existence and creates directories and files there.
\<close>

datatype node = FileN bytes | DirN

type_synonym store = "path \<rightharpoonup> node"

datatype error = MkdirError path

text \<open>
  \<^verbatim>\<open>fs.mkdirSync(p, { recursive: true })\<close> creates the directory and its missing
  ancestors, and throws when a file is in the way.
\<close>

definition is_file :: "node option \<Rightarrow> bool" where
  "is_file n = (case n of Some (FileN b) \<Rightarrow> True | _ \<Rightarrow> False)"

definition mkdirSync :: "store \<Rightarrow> path \<Rightarrow> error + store" where
  "mkdirSync s p =
     (if list_ex (\<lambda>q. is_file (s q)) (prefixes p) then Inl (MkdirError p)
      else Inr (\<lambda>q. if prefix q p then Some DirN else s q))"

text \<open>
  Writing a file needs its parent directory, and fails on a path that is a directory.
\<close>

definition writeFile :: "store \<Rightarrow> path \<Rightarrow> bytes \<Rightarrow> store option" where
  "writeFile s p b =
     (if p \<noteq> [] \<and> s (butlast p) = Some DirN \<and> s p \<noteq> Some DirN
      then Some (s(p \<mapsto> FileN b)) else None)"

section \<open>The image libraries\<close>

text \<open>
  \<^verbatim>\<open>sharp\<close>, \<^verbatim>\<open>exifreader\<close> and \<^verbatim>\<open>image-size\<close> are not part of the repository:
  they are parameters of the model. A call that throws or rejects returns \<open>None\<close>
  (the text of the error message is not modelled). A \<^verbatim>\<open>sharp\<close> pipeline is the list
  of the operations the script chains, applied to a buffer.
\<close>

record metadata =
  mwidth :: "nat option"
  mheight :: "nat option"
  orientation :: "nat option"

datatype sharp_op =
    Rotate
  | ResizeInside nat nat
  | ResizeWidth nat
  | WithMetadata
  | Jpeg nat
  | Webp nat

record tag =
  description :: jsval
  tvalue :: jsval

record library =
  sharp_metadata :: "bytes \<Rightarrow> metadata option"
  sharp_toBuffer :: "sharp_op list \<Rightarrow> bytes \<Rightarrow> bytes option"
  exif_load :: "bytes \<Rightarrow> (string \<rightharpoonup> tag) option"
  sizeOf :: "bytes \<Rightarrow> (nat \<times> nat) option"

section \<open>Configuration\<close>

definition thumbnail_width :: nat where "thumbnail_width = 600"
definition thumbnail_quality :: nat where "thumbnail_quality = 80"
definition full_maxWidth :: nat where "full_maxWidth = 2500"
definition full_quality :: nat where "full_quality = 90"

section \<open>The manifest and the state of a run\<close>

record exif_fields =
  camera :: jsval
  lens :: jsval
  iso :: jsval
  aperture :: jsval
  shutter :: jsval

record photo =
  id' :: int
  src :: string
  thumbnail :: string
  title :: string
  width :: nat
  height :: nat
  category :: string
  exif :: exif_fields

text \<open>What the script prints, and what it writes to files, in order.\<close>

datatype logmsg =
    Scanning
  | Processing path
  | Optimizing jsval bool
  | WarnOptimization string
  | WarnThumbnail
  | Success nat
  | Saved
  | NotFound

datatype fs_event = WroteOriginal path | WroteThumbnail path path

record state =
  photos :: "photo list"
  photoId :: int
  thumbs :: store
  console :: "logmsg list"
  writes :: "fs_event list"

section \<open>The pipeline\<close>

subsection \<open>Step 1: optimising the original\<close>

text \<open>
  \<^verbatim>\<open>
  const isTooLarge = metadata.width > CONFIG.full.maxWidth || metadata.height > CONFIG.full.maxWidth;
  const needsRotation = metadata.orientation && metadata.orientation !== 1;
  \<close>
  A missing dimension compares as false. \<^verbatim>\<open>needsRotation\<close> is the orientation itself
  when that is absent or zero, and a boolean otherwise.
\<close>

definition exceeds :: "nat option \<Rightarrow> bool" where
  "exceeds d = (case d of None \<Rightarrow> False | Some n \<Rightarrow> full_maxWidth < n)"

definition isTooLarge :: "metadata \<Rightarrow> bool" where
  "isTooLarge m = (exceeds (mwidth m) \<or> exceeds (mheight m))"

definition needsRotation :: "metadata \<Rightarrow> jsval" where
  "needsRotation m =
     (case orientation m of
        None \<Rightarrow> JUndefined
      | Some n \<Rightarrow> if n = 0 then JNum (Fin 0) else JBool (n \<noteq> 1))"

text \<open>
  \<^verbatim>\<open>
  let pipeline = image.rotate();
  if (isTooLarge) {
      pipeline = pipeline.resize(CONFIG.full.maxWidth, CONFIG.full.maxWidth,
                                 { fit: 'inside', withoutEnlargement: true });
  }
  pipeline = pipeline.withMetadata().jpeg({ quality: CONFIG.full.quality });
  \<close>
\<close>

definition optimizeOps :: "bool \<Rightarrow> sharp_op list" where
  "optimizeOps tooLarge =
     Rotate # (if tooLarge then [ResizeInside full_maxWidth full_maxWidth] else []) @
     [WithMetadata, Jpeg full_quality]"

text \<open>
  The \<^verbatim>\<open>try\<close> block of step 1. It returns the buffer the later steps read, the flag
  \<^verbatim>\<open>needsUpdate\<close> and the state; an exception anywhere in the block is caught and
  logged, and leaves buffer and flag as they were.
\<close>

definition optimizeOriginal ::
  "library \<Rightarrow> path \<Rightarrow> string \<Rightarrow> bytes \<Rightarrow> state \<Rightarrow> bytes \<times> bool \<times> state" where
  "optimizeOriginal lib relativePath name fileBuffer st =
     (case sharp_metadata lib fileBuffer of
        None \<Rightarrow> (fileBuffer, False, st\<lparr>console := console st @ [WarnOptimization name]\<rparr>)
      | Some m \<Rightarrow>
          if truthy (needsRotation m) \<or> isTooLarge m then
            (case sharp_toBuffer lib (optimizeOps (isTooLarge m)) fileBuffer of
               None \<Rightarrow>
                 (fileBuffer, False,
                  st\<lparr>console := console st @
                       [Optimizing (needsRotation m) (isTooLarge m), WarnOptimization name]\<rparr>)
             | Some optimizedBuffer \<Rightarrow>
                 (optimizedBuffer, True,
                  st\<lparr>console := console st @ [Optimizing (needsRotation m) (isTooLarge m)],
                     writes := writes st @ [WroteOriginal relativePath]\<rparr>))
          else (fileBuffer, False, st))"

subsection \<open>Step 2: the thumbnail\<close>

text \<open>
  \<^verbatim>\<open>
  if (!fs.existsSync(thumbPath) || needsUpdate) {
      await sharp(fileBuffer)
          .resize(CONFIG.thumbnail.width, null, { withoutEnlargement: true })
          .webp({ quality: CONFIG.thumbnail.quality })
          .toFile(thumbPath);
  }
  \<close>
  inside a \<^verbatim>\<open>try\<close> whose handler prints a warning.
\<close>

definition thumbnailOps :: "sharp_op list" where
  "thumbnailOps = [ResizeWidth thumbnail_width, Webp thumbnail_quality]"

definition generateThumbnail ::
  "library \<Rightarrow> path \<Rightarrow> path \<Rightarrow> bytes \<Rightarrow> bool \<Rightarrow> state \<Rightarrow> state" where
  "generateThumbnail lib relativePath thumbPath fileBuffer needsUpdate st =
     (if thumbs st thumbPath = None \<or> needsUpdate then
        (case sharp_toBuffer lib thumbnailOps fileBuffer of
           None \<Rightarrow> st\<lparr>console := console st @ [WarnThumbnail]\<rparr>
         | Some out \<Rightarrow>
             (case writeFile (thumbs st) thumbPath out of
                None \<Rightarrow> st\<lparr>console := console st @ [WarnThumbnail]\<rparr>
              | Some s \<Rightarrow>
                  st\<lparr>thumbs := s,
                     writes := writes st @ [WroteThumbnail relativePath thumbPath]\<rparr>))
      else st)"

subsection \<open>Steps 3 to 6: metadata, dimensions, category, record\<close>

text \<open>
  \<^verbatim>\<open>
  let tags = {};
  try { tags = ExifReader.load(fileBuffer); } catch (error) { }
  const getTag = (name) => {
      if (tags[name]) { return tags[name].description || tags[name].value || ''; }
      return '';
  };
  \<close>
\<close>

definition loadTags :: "library \<Rightarrow> bytes \<Rightarrow> (string \<rightharpoonup> tag)" where
  "loadTags lib fileBuffer =
     (case exif_load lib fileBuffer of None \<Rightarrow> Map.empty | Some tags \<Rightarrow> tags)"

definition getTag :: "(string \<rightharpoonup> tag) \<Rightarrow> string \<Rightarrow> jsval" where
  "getTag tags name =
     (case tags name of
        None \<Rightarrow> JStr ''''
      | Some t \<Rightarrow> js_or (js_or (description t) (tvalue t)) (JStr ''''))"

definition exifOf :: "(string \<rightharpoonup> tag) \<Rightarrow> exif_fields" where
  "exifOf tags =
     \<lparr> camera = js_or (js_or (getTag tags ''Model'') (getTag tags ''Make'')) (JStr ''Unknown Camera''),
       lens = js_or (js_or (js_or (getTag tags ''LensModel'') (getTag tags ''Lens''))
                      (getTag tags ''LensInfo'')) (JStr ''Unknown Lens''),
       iso = js_or (js_or (getTag tags ''ISOSpeedRatings'') (getTag tags ''ISO'')) (JStr ''''),
       aperture = formatAperture (js_or (getTag tags ''FNumber'') (getTag tags ''ApertureValue'')),
       shutter = formatShutter (js_or (getTag tags ''ExposureTime'') (getTag tags ''ShutterSpeedValue'')) \<rparr>"

text \<open>
  \<^verbatim>\<open>
  let width = 0; let height = 0;
  try { const dimensions = sizeOf(fileBuffer); width = dimensions.width; height = dimensions.height; }
  catch (e) { }
  \<close>
\<close>

definition dimensionsOf :: "library \<Rightarrow> bytes \<Rightarrow> nat \<times> nat" where
  "dimensionsOf lib fileBuffer = (case sizeOf lib fileBuffer of None \<Rightarrow> (0, 0) | Some d \<Rightarrow> d)"

definition buildPhoto ::
  "library \<Rightarrow> path \<Rightarrow> path \<Rightarrow> string \<Rightarrow> string \<Rightarrow> bytes \<Rightarrow> int \<Rightarrow> photo" where
  "buildPhoto lib categoryPath relativePath name thumbUrl fileBuffer n =
     \<lparr> id' = n,
       src = ''/photos/'' @ slashes (join_path relativePath),
       thumbnail = thumbUrl,
       title = titleOf name,
       width = fst (dimensionsOf lib fileBuffer),
       height = snd (dimensionsOf lib fileBuffer),
       category = categoryOf categoryPath,
       exif = exifOf (loadTags lib fileBuffer) \<rparr>"

subsection \<open>One image file\<close>

text \<open>
  The body of the loop of \<^verbatim>\<open>processDirectory\<close> for a file that passed the extension
  filter (lines 64 to 189). It returns the bytes the file has on disk afterwards, which
  are the bytes of \<^verbatim>\<open>fileBuffer\<close>, and the state.
\<close>

definition thumbPathOf :: "path \<Rightarrow> string \<Rightarrow> path" where
  "thumbPathOf directory name =
     directory @ [basename name (toLowerCase (extname name)) @ ''.webp'']"

definition processFile ::
  "library \<Rightarrow> path \<Rightarrow> path \<Rightarrow> string \<Rightarrow> bytes \<Rightarrow> state \<Rightarrow> bytes \<times> state" where
  "processFile lib directory categoryPath name contents st =
     (let relativePath = directory @ [name];
          st1 = st\<lparr>console := console st @ [Processing relativePath]\<rparr>
      in case optimizeOriginal lib relativePath name contents st1 of
           (fileBuffer, needsUpdate, st2) \<Rightarrow>
             let thumbRelativePath = thumbPathOf directory name;
                 thumbUrl = ''/thumbnails/'' @ slashes (join_path thumbRelativePath);
                 st3 = generateThumbnail lib relativePath thumbRelativePath fileBuffer needsUpdate st2;
                 p = buildPhoto lib categoryPath relativePath name thumbUrl fileBuffer (photoId st3)
             in (fileBuffer, st3\<lparr>photos := photos st3 @ [p], photoId := photoId st3 + 1\<rparr>))"

subsection \<open>The traversal\<close>

text \<open>
  \<^verbatim>\<open>
  const thumbDir = path.join(THUMBS_DIR, path.dirname(relativePath));
  if (!fs.existsSync(thumbDir)) { fs.mkdirSync(thumbDir, { recursive: true }); }
  \<close>
  The directory name of an entry's relative path is the path of the directory being
  traversed. An exception of \<^verbatim>\<open>mkdirSync\<close> is not caught: it ends the run.
\<close>

definition ensureThumbDir :: "path \<Rightarrow> state \<Rightarrow> error + state" where
  "ensureThumbDir thumbDir st =
     (if thumbs st thumbDir = None then
        (case mkdirSync (thumbs st) thumbDir of
           Inl e \<Rightarrow> Inl e
         | Inr s \<Rightarrow> Inr (st\<lparr>thumbs := s\<rparr>))
      else Inr st)"

text \<open>
  \<^verbatim>\<open>processDirectory(directory, categoryPath)\<close> loops over the entries of a directory;
  \<open>processEntry\<close> is one iteration. Both return the entries as they are on disk
  afterwards. The recursive call passes the entry's relative path for both arguments.
\<close>

fun processDirectory ::
    "library \<Rightarrow> path \<Rightarrow> path \<Rightarrow> entry list \<Rightarrow> state \<Rightarrow> error + (entry list \<times> state)"
  and processEntry ::
    "library \<Rightarrow> path \<Rightarrow> path \<Rightarrow> entry \<Rightarrow> state \<Rightarrow> error + (entry \<times> state)"
where
  "processDirectory lib directory categoryPath [] st = Inr ([], st)"
| "processDirectory lib directory categoryPath (e # es) st =
     (case processEntry lib directory categoryPath e st of
        Inl err \<Rightarrow> Inl err
      | Inr (e', st1) \<Rightarrow>
          (case processDirectory lib directory categoryPath es st1 of
             Inl err \<Rightarrow> Inl err
           | Inr (es', st2) \<Rightarrow> Inr (e' # es', st2)))"
| "processEntry lib directory categoryPath (Dir name sub) st =
     (case ensureThumbDir directory st of
        Inl err \<Rightarrow> Inl err
      | Inr st1 \<Rightarrow>
          (case processDirectory lib (directory @ [name]) (directory @ [name]) sub st1 of
             Inl err \<Rightarrow> Inl err
           | Inr (sub', st2) \<Rightarrow> Inr (Dir name sub', st2)))"
| "processEntry lib directory categoryPath (File name contents) st =
     (case ensureThumbDir directory st of
        Inl err \<Rightarrow> Inl err
      | Inr st1 \<Rightarrow>
          if allowed (toLowerCase (extname name)) then
            (case processFile lib directory categoryPath name contents st1 of
               (contents', st2) \<Rightarrow> Inr (File name contents', st2))
          else Inr (File name contents, st1))"

subsection \<open>The script\<close>

text \<open>
  The part of the file system the script touches: the source tree (absent when
  \<^verbatim>\<open>PHOTOS_DIR\<close> does not exist), the thumbnail tree (\<^verbatim>\<open>THUMBS_DIR\<close> exists when the
  store has the empty path) and the manifest file \<^verbatim>\<open>OUTPUT_FILE\<close>, whose content is
  represented by the list of records that \<^verbatim>\<open>JSON.stringify\<close> serialises.
\<close>

record world =
  photosDir :: "entry list option"
  thumbsDir :: store
  outputFile :: "photo list option"

text \<open>
  \<^verbatim>\<open>
  if (!fs.existsSync(PHOTOS_DIR)) { fs.mkdirSync(PHOTOS_DIR, { recursive: true }); }
  if (!fs.existsSync(THUMBS_DIR)) { fs.mkdirSync(THUMBS_DIR, { recursive: true }); }
  \<close>
\<close>

definition ensureDirectories :: "world \<Rightarrow> world" where
  "ensureDirectories w =
     (let w1 = (case photosDir w of None \<Rightarrow> w\<lparr>photosDir := Some []\<rparr> | Some es \<Rightarrow> w)
      in if thumbsDir w1 [] = None then w1\<lparr>thumbsDir := (thumbsDir w1)([] \<mapsto> DirN)\<rparr> else w1)"

text \<open>
  \<^verbatim>\<open>generateGallery\<close> returns the file system and the final state of the run, or the
  exception that ended it.
\<close>

definition generateGallery :: "library \<Rightarrow> world \<Rightarrow> error + (world \<times> state)" where
  "generateGallery lib w =
     (let st0 = \<lparr> photos = [], photoId = 1, thumbs = thumbsDir w,
                  console = [Scanning], writes = [] \<rparr>
      in case photosDir w of
           Some entries \<Rightarrow>
             (case processDirectory lib [] [] entries st0 of
                Inl err \<Rightarrow> Inl err
              | Inr (entries', st) \<Rightarrow>
                  Inr (\<lparr> photosDir = Some entries', thumbsDir = thumbs st,
                         outputFile = Some (photos st) \<rparr>,
                       st\<lparr>console := console st @ [Success (length (photos st)), Saved]\<rparr>))
         | None \<Rightarrow> Inr (w, st0\<lparr>console := console st0 @ [NotFound]\<rparr>))"

text \<open>The whole script: the two directory checks, then \<^verbatim>\<open>generateGallery()\<close>.\<close>

definition main :: "library \<Rightarrow> world \<Rightarrow> error + (world \<times> state)" where
  "main lib w = generateGallery lib (ensureDirectories w)"

section \<open>The source tree, as lists\<close>

text \<open>
  The files of a source tree in the order the traversal visits them, each with its path
  relative to \<^verbatim>\<open>PHOTOS_DIR\<close> and its bytes.
\<close>

fun filesOf :: "path \<Rightarrow> entry list \<Rightarrow> (path \<times> bytes) list"
  and filesOfEntry :: "path \<Rightarrow> entry \<Rightarrow> (path \<times> bytes) list"
where
  "filesOf directory [] = []"
| "filesOf directory (e # es) = filesOfEntry directory e @ filesOf directory es"
| "filesOfEntry directory (File name contents) = [(directory @ [name], contents)]"
| "filesOfEntry directory (Dir name sub) = filesOf (directory @ [name]) sub"

text \<open>The directories of a source tree that have at least one entry.\<close>

fun parentsOf :: "path \<Rightarrow> entry list \<Rightarrow> path list"
  and parentsOfEntry :: "path \<Rightarrow> entry \<Rightarrow> path list"
where
  "parentsOf directory [] = []"
| "parentsOf directory (e # es) = directory # parentsOfEntry directory e @ parentsOf directory es"
| "parentsOfEntry directory (File name contents) = []"
| "parentsOfEntry directory (Dir name sub) = parentsOf (directory @ [name]) sub"

text \<open>A file passes the extension filter of the traversal.\<close>

definition isImage :: "path \<Rightarrow> bool" where
  "isImage p = (p \<noteq> [] \<and> allowed (toLowerCase (extname (last p))))"

text \<open>The \<^verbatim>\<open>src\<close> field of the record of the file at a relative path.\<close>

definition srcOf :: "path \<Rightarrow> string" where
  "srcOf relativePath = ''/photos/'' @ slashes (join_path relativePath)"

text \<open>The tag names that the record's \<^verbatim>\<open>exif\<close> object looks up.\<close>

definition lookedUpTags :: "string list" where
  "lookedUpTags =
     [''Model'', ''Make'', ''LensModel'', ''Lens'', ''LensInfo'', ''ISOSpeedRatings'', ''ISO'',
      ''FNumber'', ''ApertureValue'', ''ExposureTime'', ''ShutterSpeedValue'']"

definition unknownExif :: exif_fields where
  "unknownExif =
     \<lparr> camera = JStr ''Unknown Camera'', lens = JStr ''Unknown Lens'', iso = JStr '''',
       aperture = JStr '''', shutter = JStr '''' \<rparr>"

text \<open>The identifiers of a list of records count up from \<open>n\<close>.\<close>

fun numberedFrom :: "int \<Rightarrow> photo list \<Rightarrow> bool" where
  "numberedFrom n [] = True"
| "numberedFrom n (p # ps) = (id' p = n \<and> numberedFrom (n + 1) ps)"

text \<open>The paths named by the \<^verbatim>\<open>Processing: ...\<close> lines of the console.\<close>

fun processedPaths :: "logmsg list \<Rightarrow> path list" where
  "processedPaths [] = []"
| "processedPaths (Processing p # ms) = p # processedPaths ms"
| "processedPaths (m # ms) = processedPaths ms"

text \<open>
  A store grows from \<open>s\<close> to \<open>s'\<close>: a directory stays a directory and a file stays a
  file (its bytes may change); nothing is removed.
\<close>

definition grows :: "store \<Rightarrow> store \<Rightarrow> bool" where
  "grows s s' = (\<forall>q. (s q = Some DirN \<longrightarrow> s' q = Some DirN) \<and> (is_file (s q) \<longrightarrow> is_file (s' q)))"


section \<open>An example\<close>

text \<open>
  A small library and source tree on which the theorems below are instantiated. An
  image is a buffer whose first byte stands for both of its dimensions and whose second
  byte, if any, for its orientation tag; the empty buffer is not an image. Encoding
  an original caps the dimension at the maximum and drops the orientation; a thumbnail
  is a quarter of the size. Only buffers longer than two bytes carry tags.
\<close>

definition example_library :: library where
  "example_library =
     \<lparr> sharp_metadata = (\<lambda>b. case b of
          [] \<Rightarrow> None
        | w # r \<Rightarrow> Some \<lparr> mwidth = Some w, mheight = Some w,
                         orientation = (case r of [] \<Rightarrow> None | k # _ \<Rightarrow> Some k) \<rparr>),
       sharp_toBuffer = (\<lambda>ops b. case b of
          [] \<Rightarrow> None
        | w # r \<Rightarrow> if last ops = Webp 80 then Some [w div 4] else Some [min w 2500]),
       exif_load = (\<lambda>b. if 2 < length b
                         then Some [''Model'' \<mapsto> \<lparr> description = JStr ''X100'', tvalue = JUndefined \<rparr>,
                                    ''FNumber'' \<mapsto> \<lparr> description = JStr '''', tvalue = JNum (Fin 2) \<rparr>,
                                    ''ExposureTime'' \<mapsto> \<lparr> description = JStr ''0.004'', tvalue = JUndefined \<rparr>]
                         else None),
       sizeOf = (\<lambda>b. case b of [] \<Rightarrow> None | w # r \<Rightarrow> Some (w, w)) \<rparr>"

definition example_tree :: "entry list" where
  "example_tree =
     [File ''a.jpg'' [3000, 6],
      File ''notes.txt'' [1],
      Dir ''trips'' [File ''b-c.PNG'' [100], File ''d.webp'' [640, 1, 7]],
      Dir ''docs'' [File ''x.md'' []]]"

definition example_world :: world where
  "example_world = \<lparr> photosDir = Some example_tree, thumbsDir = Map.empty, outputFile = None \<rparr>"

definition example_state :: state where
  "example_state =
     \<lparr> photos = [], photoId = 1, thumbs = [[] \<mapsto> DirN], console = [Scanning], writes = [] \<rparr>"

section \<open>Facts about the printed form of numbers\<close>

text \<open>
  The printed form of a number consists of digits, a sign and a decimal point (or is one
  of the three words): it has no fraction separator and does not begin with an \<open>f\<close>.
\<close>

lemma is_digit_digit_char: "d < 10 \<Longrightarrow> is_digit (digit_char d)"
proof -
  assume "d < 10"
  then have "d \<in> {0,1,2,3,4,5,6,7,8,9}" by auto
  then show ?thesis unfolding digit_char_def is_digit_def by auto
qed

lemma show_nat_digits: "c \<in> set (show_nat n) \<Longrightarrow> is_digit c"
proof (induction n rule: show_nat.induct)
  case (1 n)
  show ?case
  proof (cases "n < 10")
    case True
    with 1(2) have "c = digit_char n" by (subst (asm) show_nat.simps) simp
    with True show ?thesis by (simp add: is_digit_digit_char)
  next
    case False
    with 1(2) have "c \<in> set (show_nat (n div 10)) \<or> c = digit_char (n mod 10)"
      by (subst (asm) show_nat.simps) auto
    then show ?thesis
    proof
      assume "c \<in> set (show_nat (n div 10))"
      with 1(1)[OF False] show ?thesis .
    next
      assume "c = digit_char (n mod 10)"
      then show ?thesis by (simp add: is_digit_digit_char)
    qed
  qed
qed

lemma show_nat_nonempty: "show_nat n \<noteq> []"
  by (subst show_nat.simps) simp

lemma frac_digits_digits:
  "0 \<le> r \<Longrightarrow> r < 1 \<Longrightarrow> c \<in> set (frac_digits k r) \<Longrightarrow> is_digit c"
proof (induction k arbitrary: r)
  case 0
  then show ?case by simp
next
  case (Suc k)
  let ?d = "\<lfloor>r * 10\<rfloor>"
  have d0: "0 \<le> ?d" using Suc.prems(1) by simp
  have d1: "?d < 10" using Suc.prems(2) by (simp add: floor_less_iff)
  have "nat ?d < 10" using d0 d1 by linarith
  then have a: "is_digit (digit_char (nat ?d))" by (rule is_digit_digit_char)
  have b: "0 \<le> r * 10 - of_int ?d" by simp
  have c: "r * 10 - of_int ?d < 1" by linarith
  from Suc.prems(3) have "c = digit_char (nat ?d) \<or> c \<in> set (frac_digits k (r * 10 - of_int ?d))"
    by (auto split: if_splits)
  with a Suc.IH[OF b c] show ?case by blast
qed

lemma show_rat_chars:
  assumes "c \<in> set (show_rat r)"
  shows "is_digit c \<or> c = CHR ''-'' \<or> c = CHR ''.''"
proof -
  let ?a = "\<bar>r\<bar>"
  let ?fp = "?a - of_int \<lfloor>?a\<rfloor>"
  have f0: "0 \<le> ?fp" by simp
  have f1: "?fp < 1" by linarith
  from assms have "c = CHR ''-'' \<or> c \<in> set (show_nat (nat \<lfloor>?a\<rfloor>)) \<or> c = CHR ''.'' \<or>
      c \<in> set (frac_digits 17 ?fp)"
    unfolding show_rat_def Let_def by (auto split: if_splits)
  with show_nat_digits frac_digits_digits[OF f0 f1] show ?thesis by blast
qed

lemma show_rat_no_slash: "CHR ''/'' \<notin> set (show_rat r)"
proof
  assume "CHR ''/'' \<in> set (show_rat r)"
  from show_rat_chars[OF this] show False by (simp add: is_digit_def)
qed

lemma num_toString_no_slash: "CHR ''/'' \<notin> set (num_toString n)"
  by (cases n) (simp_all add: show_rat_no_slash)

lemma show_rat_nonempty: "show_rat r \<noteq> []"
  using show_nat_nonempty by (simp add: show_rat_def Let_def)

lemma lower_char_not_f:
  assumes "is_digit c \<or> c = CHR ''-'' \<or> c = CHR ''.''"
  shows "lower_char c \<noteq> CHR ''f''"
proof -
  from assms have "(of_char c :: nat) < 65" by (auto simp: is_digit_def)
  then have "lower_char c = c" by (simp add: lower_char_def)
  moreover from assms have "c \<noteq> CHR ''f''" by (auto simp: is_digit_def)
  ultimately show ?thesis by simp
qed

lemma num_toString_not_f: "\<not> startsWith (toLowerCase (num_toString n)) ''f''"
proof (cases n)
  case (Fin r)
  obtain c cs where cs: "show_rat r = c # cs"
    using show_rat_nonempty[of r] by (cases "show_rat r") auto
  then have "c \<in> set (show_rat r)" by simp
  from lower_char_not_f[OF show_rat_chars[OF this]] cs Fin show ?thesis
    by (simp add: startsWith_def toLowerCase_def)
next
  case PosInf
  have "\<not> startsWith (toLowerCase ''Infinity'') ''f''" by code_simp
  with PosInf show ?thesis by simp
next
  case NegInf
  have "\<not> startsWith (toLowerCase ''-Infinity'') ''f''" by code_simp
  with NegInf show ?thesis by simp
next
  case NaN
  have "\<not> startsWith (toLowerCase ''NaN'') ''f''" by code_simp
  with NaN show ?thesis by simp
qed

section \<open>The shutter-speed and aperture formatters\<close>




text \<open>
  C8. The aperture formatter returns the empty string for a falsy input, its input
  unchanged when the lower-cased string form starts with \<open>f\<close>, and otherwise the string
  form with \<open>f/\<close> in front.
\<close>

theorem formatAperture_cases:
  "(\<not> truthy v \<longrightarrow> formatAperture v = JStr '''') \<and>
   (truthy v \<and> startsWith (toLowerCase (toString v)) ''f'' \<longrightarrow> formatAperture v = v) \<and>
   (truthy v \<and> \<not> startsWith (toLowerCase (toString v)) ''f'' \<longrightarrow>
      formatAperture v = JStr (''f/'' @ toString v))"
proof -
  have c1: "\<not> truthy v \<longrightarrow> formatAperture v = JStr ''''"
    by (simp add: formatAperture_def)
  have bt: "\<not> startsWith (toLowerCase ''true'') ''f''" by code_simp
  have c2: "truthy v \<and> startsWith (toLowerCase (toString v)) ''f'' \<longrightarrow> formatAperture v = v"
  proof (cases v)
    case (JStr x)
    then show ?thesis by (simp add: formatAperture_def)
  next
    case (JNum n)
    then show ?thesis using num_toString_not_f[of n] by simp
  next
    case (JBool b)
    then show ?thesis using bt by (cases b) simp_all
  next
    case JUndefined
    then show ?thesis by simp
  qed
  have c3: "truthy v \<and> \<not> startsWith (toLowerCase (toString v)) ''f'' \<longrightarrow>
      formatAperture v = JStr (''f/'' @ toString v)"
    by (simp add: formatAperture_def)
  from c1 c2 c3 show ?thesis by blast
qed

theorem formatAperture_cases_witness:
  "formatAperture (JStr '''') = JStr '''' \<and>
   formatAperture (JStr ''f/1.8'') = JStr ''f/1.8'' \<and>
   formatAperture (JStr ''1.8'') = JStr ''f/1.8''"
proof -
  have h1: "\<not> truthy (JStr '''')" by simp
  have h2: "truthy (JStr ''f/1.8'') \<and> startsWith (toLowerCase (toString (JStr ''f/1.8''))) ''f''"
    by code_simp
  have h3: "truthy (JStr ''1.8'') \<and> \<not> startsWith (toLowerCase (toString (JStr ''1.8''))) ''f''"
    by code_simp
  from formatAperture_cases[of "JStr ''''"] h1
  have a: "formatAperture (JStr '''') = JStr ''''" by blast
  from formatAperture_cases[of "JStr ''f/1.8''"] h2
  have b: "formatAperture (JStr ''f/1.8'') = JStr ''f/1.8''" by blast
  from formatAperture_cases[of "JStr ''1.8''"] h3
  have c: "formatAperture (JStr ''1.8'') = JStr (''f/'' @ toString (JStr ''1.8''))" by blast
  from a b c show ?thesis by simp
qed

section \<open>One file: what each step changes\<close>

lemma optimizeOriginal_frame:
  assumes "optimizeOriginal lib rp name b st = (b', upd, st')"
  shows "photos st' = photos st" "photoId st' = photoId st" "thumbs st' = thumbs st"
    "writes st' = writes st @ (if upd then [WroteOriginal rp] else [])"
  using assms by (auto simp: optimizeOriginal_def split: option.splits if_splits)

lemma optimizeOriginal_updated:
  assumes "optimizeOriginal lib rp name b st = (b', True, st')"
  shows "\<exists>m. sharp_metadata lib b = Some m \<and> (truthy (needsRotation m) \<or> isTooLarge m) \<and>
             sharp_toBuffer lib (optimizeOps (isTooLarge m)) b = Some b'"
  using assms by (auto simp: optimizeOriginal_def split: option.splits if_splits)

lemma optimizeOriginal_not_updated:
  assumes "optimizeOriginal lib rp name b st = (b', False, st')"
  shows "b' = b"
  using assms by (auto simp: optimizeOriginal_def split: option.splits if_splits)

lemma generateThumbnail_frame:
  assumes "generateThumbnail lib rp tp buf upd st = st'"
  shows "photos st' = photos st" "photoId st' = photoId st"
    "writes st' = writes st \<or> writes st' = writes st @ [WroteThumbnail rp tp]"
  using assms by (auto simp: generateThumbnail_def split: option.splits if_splits)

lemma processFile_unfold:
  assumes "processFile lib directory categoryPath name contents st = (contents', st')"
  obtains upd st2 st3 where
    "optimizeOriginal lib (directory @ [name]) name contents
       (st\<lparr>console := console st @ [Processing (directory @ [name])]\<rparr>) = (contents', upd, st2)"
    "generateThumbnail lib (directory @ [name]) (thumbPathOf directory name) contents' upd st2 = st3"
    "st' = st3\<lparr>photos := photos st3 @
        [buildPhoto lib categoryPath (directory @ [name]) name
           (''/thumbnails/'' @ slashes (join_path (thumbPathOf directory name))) contents' (photoId st3)],
        photoId := photoId st3 + 1\<rparr>"
  using assms by (auto simp: processFile_def Let_def split: prod.splits)

lemma needsRotation_truthy:
  "truthy (needsRotation m) \<longleftrightarrow> (\<exists>n. orientation m = Some n \<and> n \<noteq> 0 \<and> n \<noteq> 1)"
  by (auto simp: needsRotation_def split: option.splits)

lemma isTooLarge_iff:
  "isTooLarge m \<longleftrightarrow> (\<exists>w. mwidth m = Some w \<and> full_maxWidth < w) \<or> (\<exists>h. mheight m = Some h \<and> full_maxWidth < h)"
  by (auto simp: isTooLarge_def exceeds_def split: option.splits)

lemma ensureThumbDir_frame:
  assumes "ensureThumbDir d st = Inr st1"
  shows "photos st1 = photos st" "photoId st1 = photoId st" "console st1 = console st"
    "writes st1 = writes st"
  using assms by (auto simp: ensureThumbDir_def split: if_splits sum.splits)

lemma processEntry_File:
  assumes "processEntry lib directory categoryPath (File name contents) st = Inr (e', st')"
  obtains st1 contents' where "ensureThumbDir directory st = Inr st1"
    "allowed (toLowerCase (extname name))"
    "processFile lib directory categoryPath name contents st1 = (contents', st')"
    "e' = File name contents'"
  | "ensureThumbDir directory st = Inr st'" "\<not> allowed (toLowerCase (extname name))"
    "e' = File name contents"
  using assms by (auto split: sum.splits if_splits prod.splits)

lemma getTag_absent: "tags k = None \<Longrightarrow> getTag tags k = JStr ''''"
  by (simp add: getTag_def)

lemma exifOf_absent:
  assumes "\<forall>k \<in> set lookedUpTags. tags k = None"
  shows "exifOf tags = unknownExif"
proof -
  from assms have g: "getTag tags ''Model'' = JStr ''''" "getTag tags ''Make'' = JStr ''''"
    "getTag tags ''LensModel'' = JStr ''''" "getTag tags ''Lens'' = JStr ''''"
    "getTag tags ''LensInfo'' = JStr ''''" "getTag tags ''ISOSpeedRatings'' = JStr ''''"
    "getTag tags ''ISO'' = JStr ''''" "getTag tags ''FNumber'' = JStr ''''"
    "getTag tags ''ApertureValue'' = JStr ''''" "getTag tags ''ExposureTime'' = JStr ''''"
    "getTag tags ''ShutterSpeedValue'' = JStr ''''"
    by (simp_all add: lookedUpTags_def getTag_absent)
  show ?thesis
    unfolding exifOf_def g unknownExif_def
    by (simp add: js_or_def formatAperture_def formatShutter_def)
qed

lemma loadTags_failed: "exif_load lib b = None \<Longrightarrow> loadTags lib b = Map.empty"
  by (simp add: loadTags_def)

lemma loadTags_loaded: "exif_load lib b = Some tags \<Longrightarrow> loadTags lib b = tags"
  by (simp add: loadTags_def)

lemma processFile_photos:
  assumes "processFile lib directory categoryPath name contents st = (contents', st')"
  shows "\<exists>p. photos st' = photos st @ [p] \<and> id' p = photoId st \<and>
    src p = srcOf (directory @ [name]) \<and> exif p = exifOf (loadTags lib contents') \<and>
    photoId st' = photoId st + 1"
proof -
  from assms obtain upd st2 st3 where
    opt: "optimizeOriginal lib (directory @ [name]) name contents
       (st\<lparr>console := console st @ [Processing (directory @ [name])]\<rparr>) = (contents', upd, st2)"
    and gen: "generateThumbnail lib (directory @ [name]) (thumbPathOf directory name) contents' upd st2 = st3"
    and st': "st' = st3\<lparr>photos := photos st3 @
        [buildPhoto lib categoryPath (directory @ [name]) name
           (''/thumbnails/'' @ slashes (join_path (thumbPathOf directory name))) contents' (photoId st3)],
        photoId := photoId st3 + 1\<rparr>"
    by (rule processFile_unfold)
  have p3: "photos st3 = photos st" "photoId st3 = photoId st"
    using optimizeOriginal_frame(1,2)[OF opt] generateThumbnail_frame(1,2)[OF gen] by simp_all
  show ?thesis unfolding st' using p3 by (simp add: buildPhoto_def srcOf_def)
qed

lemma last_optimizeOps: "last (optimizeOps tooLarge) = Jpeg full_quality"
  by (simp add: optimizeOps_def)

section \<open>Claims about one image file\<close>

text \<open>
  C2. One iteration of the traversal on a file leaves a file of the same name. If the
  file's bytes changed, or the iteration wrote the original, then the image's metadata
  could be read and its orientation tag is present and not \<open>1\<close>, or one of its dimensions
  exceeds the configured maximum. If the metadata could be read, the orientation is
  absent or \<open>1\<close> and both dimensions are within the maximum, then the bytes are
  unchanged and the iteration wrote no original.
\<close>

theorem original_rewritten_only_if:
  assumes "processEntry lib directory categoryPath (File name contents) st = Inr (e', st')"
  shows "\<exists>contents' ws. e' = File name contents' \<and> writes st' = writes st @ ws \<and>
     ((contents' \<noteq> contents \<or> WroteOriginal (directory @ [name]) \<in> set ws) \<longrightarrow>
        (\<exists>m. sharp_metadata lib contents = Some m \<and>
           ((\<exists>n. orientation m = Some n \<and> n \<noteq> 1) \<or>
            (\<exists>w. mwidth m = Some w \<and> full_maxWidth < w) \<or>
            (\<exists>h. mheight m = Some h \<and> full_maxWidth < h)))) \<and>
     ((\<exists>m. sharp_metadata lib contents = Some m \<and>
           (orientation m = None \<or> orientation m = Some 1) \<and>
           (\<forall>w. mwidth m = Some w \<longrightarrow> w \<le> full_maxWidth) \<and>
           (\<forall>h. mheight m = Some h \<longrightarrow> h \<le> full_maxWidth)) \<longrightarrow>
        contents' = contents \<and> (\<forall>p. WroteOriginal p \<notin> set ws))"
  using assms
proof (cases rule: processEntry_File)
  case (1 st1 contents')
  from 1(3) obtain upd st2 st3 where
    opt: "optimizeOriginal lib (directory @ [name]) name contents
       (st1\<lparr>console := console st1 @ [Processing (directory @ [name])]\<rparr>) = (contents', upd, st2)"
    and gen: "generateThumbnail lib (directory @ [name]) (thumbPathOf directory name) contents' upd st2 = st3"
    and st': "st' = st3\<lparr>photos := photos st3 @
        [buildPhoto lib categoryPath (directory @ [name]) name
           (''/thumbnails/'' @ slashes (join_path (thumbPathOf directory name))) contents' (photoId st3)],
        photoId := photoId st3 + 1\<rparr>"
    by (rule processFile_unfold)
  let ?rp = "directory @ [name]"
  let ?tp = "thumbPathOf directory name"
  have w1: "writes st1 = writes st" using ensureThumbDir_frame(4)[OF 1(1)] .
  have w2: "writes st2 = writes st @ (if upd then [WroteOriginal ?rp] else [])"
    using optimizeOriginal_frame(4)[OF opt] w1 by simp
  have w3: "writes st3 = writes st2 \<or> writes st3 = writes st2 @ [WroteThumbnail ?rp ?tp]"
    using generateThumbnail_frame(3)[OF gen] .
  have w4: "writes st' = writes st3" using st' by simp
  define ws where "ws = drop (length (writes st)) (writes st')"
  have ws: "writes st' = writes st @ ws" using w2 w3 w4 by (auto simp: ws_def)
  have wsu: "WroteOriginal p \<in> set ws \<Longrightarrow> upd" for p
    using w2 w3 w4 by (auto simp: ws_def split: if_splits)
  have chg: "contents' \<noteq> contents \<Longrightarrow> upd"
  proof (rule ccontr)
    assume ne: "contents' \<noteq> contents" and "\<not> upd"
    with opt have "optimizeOriginal lib ?rp name contents
       (st1\<lparr>console := console st1 @ [Processing ?rp]\<rparr>) = (contents', False, st2)" by simp
    from optimizeOriginal_not_updated[OF this] ne show False by simp
  qed
  have trig: "upd \<Longrightarrow> \<exists>m. sharp_metadata lib contents = Some m \<and> (truthy (needsRotation m) \<or> isTooLarge m)"
  proof -
    assume "upd"
    with opt have "optimizeOriginal lib ?rp name contents
       (st1\<lparr>console := console st1 @ [Processing ?rp]\<rparr>) = (contents', True, st2)" by simp
    from optimizeOriginal_updated[OF this] show ?thesis by blast
  qed
  have a: "(contents' \<noteq> contents \<or> WroteOriginal ?rp \<in> set ws) \<longrightarrow>
        (\<exists>m. sharp_metadata lib contents = Some m \<and>
           ((\<exists>n. orientation m = Some n \<and> n \<noteq> 1) \<or>
            (\<exists>w. mwidth m = Some w \<and> full_maxWidth < w) \<or>
            (\<exists>h. mheight m = Some h \<and> full_maxWidth < h)))"
    using wsu chg trig by (metis needsRotation_truthy isTooLarge_iff)
  have b: "(\<exists>m. sharp_metadata lib contents = Some m \<and>
           (orientation m = None \<or> orientation m = Some 1) \<and>
           (\<forall>w. mwidth m = Some w \<longrightarrow> w \<le> full_maxWidth) \<and>
           (\<forall>h. mheight m = Some h \<longrightarrow> h \<le> full_maxWidth)) \<longrightarrow>
        contents' = contents \<and> (\<forall>p. WroteOriginal p \<notin> set ws)"
  proof
    assume "\<exists>m. sharp_metadata lib contents = Some m \<and>
           (orientation m = None \<or> orientation m = Some 1) \<and>
           (\<forall>w. mwidth m = Some w \<longrightarrow> w \<le> full_maxWidth) \<and>
           (\<forall>h. mheight m = Some h \<longrightarrow> h \<le> full_maxWidth)"
    then obtain m where m: "sharp_metadata lib contents = Some m"
      "orientation m = None \<or> orientation m = Some 1"
      "\<forall>w. mwidth m = Some w \<longrightarrow> w \<le> full_maxWidth"
      "\<forall>h. mheight m = Some h \<longrightarrow> h \<le> full_maxWidth" by blast
    have nr: "\<not> truthy (needsRotation m)" using m(2) by (auto simp: needsRotation_truthy)
    have nl: "\<not> isTooLarge m" using m(3,4) by (auto simp: isTooLarge_iff)
    have "\<not> upd" using trig m(1) nr nl by auto
    with wsu chg show "contents' = contents \<and> (\<forall>p. WroteOriginal p \<notin> set ws)" by blast
  qed
  from 1(4) ws a b show ?thesis by blast
next
  case 2
  have "writes st' = writes st @ []" using ensureThumbDir_frame(4)[OF 2(1)] by simp
  with 2(3) show ?thesis by fastforce
qed

theorem original_rewritten_only_if_witness:
  "(case processEntry example_library [] [] (File ''b.jpg'' [100]) example_state of
      Inl err \<Rightarrow> False
    | Inr (e', st') \<Rightarrow> e' = File ''b.jpg'' [100] \<and> WroteOriginal [''b.jpg''] \<notin> set (writes st')) \<and>
   (case processEntry example_library [] [] (File ''a.jpg'' [3000, 6]) example_state of
      Inl err \<Rightarrow> False
    | Inr (e', st') \<Rightarrow> e' \<noteq> File ''a.jpg'' [3000, 6] \<and>
        (\<exists>m. sharp_metadata example_library [3000, 6] = Some m \<and>
           ((\<exists>n. orientation m = Some n \<and> n \<noteq> 1) \<or>
            (\<exists>w. mwidth m = Some w \<and> full_maxWidth < w) \<or>
            (\<exists>h. mheight m = Some h \<and> full_maxWidth < h))))"
proof -
  have w0: "writes example_state = []" by (simp add: example_state_def)
  have "\<not> isl (processEntry example_library [] [] (File ''b.jpg'' [100]) example_state)"
    by code_simp
  then obtain e1 st1 where
    eq1: "processEntry example_library [] [] (File ''b.jpg'' [100]) example_state = Inr (e1, st1)"
    by (cases "processEntry example_library [] [] (File ''b.jpg'' [100]) example_state") auto
  have m1: "\<exists>m. sharp_metadata example_library [100] = Some m \<and>
           (orientation m = None \<or> orientation m = Some 1) \<and>
           (\<forall>w. mwidth m = Some w \<longrightarrow> w \<le> full_maxWidth) \<and>
           (\<forall>h. mheight m = Some h \<longrightarrow> h \<le> full_maxWidth)"
    by (simp add: example_library_def full_maxWidth_def)
  from original_rewritten_only_if[OF eq1] m1 w0
  have a: "e1 = File ''b.jpg'' [100] \<and> WroteOriginal [''b.jpg''] \<notin> set (writes st1)"
    by auto
  have "\<not> isl (processEntry example_library [] [] (File ''a.jpg'' [3000, 6]) example_state)"
    by code_simp
  then obtain e2 st2 where
    eq2: "processEntry example_library [] [] (File ''a.jpg'' [3000, 6]) example_state = Inr (e2, st2)"
    by (cases "processEntry example_library [] [] (File ''a.jpg'' [3000, 6]) example_state") auto
  have "fst (projr (processEntry example_library [] [] (File ''a.jpg'' [3000, 6]) example_state))
          \<noteq> File ''a.jpg'' [3000, 6]"
    by code_simp
  with eq2 have ne: "e2 \<noteq> File ''a.jpg'' [3000, 6]" by simp
  from original_rewritten_only_if[OF eq2] ne
  have b: "\<exists>m. sharp_metadata example_library [3000, 6] = Some m \<and>
           ((\<exists>n. orientation m = Some n \<and> n \<noteq> 1) \<or>
            (\<exists>w. mwidth m = Some w \<and> full_maxWidth < w) \<or>
            (\<exists>h. mheight m = Some h \<and> full_maxWidth < h))"
    by blast
  from a b ne show ?thesis unfolding eq1 eq2 by simp
qed

text \<open>
  C7. When the directory step does not throw, the iteration on a file with an allowed
  extension returns normally and appends one record. If the tags of the file's buffer
  cannot be parsed, or none of the looked-up tags is among them, the record's
  \<^verbatim>\<open>exif\<close> object holds the two placeholders and three empty strings.
\<close>

theorem missing_metadata_defaults:
  assumes "ensureThumbDir directory st = Inr st1"
    and "allowed (toLowerCase (extname name))"
  shows "\<exists>contents' st' p.
     processEntry lib directory categoryPath (File name contents) st = Inr (File name contents', st') \<and>
     photos st' = photos st @ [p] \<and>
     ((exif_load lib contents' = None \<or>
       (\<exists>tags. exif_load lib contents' = Some tags \<and> (\<forall>k \<in> set lookedUpTags. tags k = None))) \<longrightarrow>
      exif p = unknownExif)"
proof -
  obtain contents' st' where pf: "processFile lib directory categoryPath name contents st1 = (contents', st')"
    by (cases "processFile lib directory categoryPath name contents st1") auto
  from processFile_photos[OF pf] obtain p where
    p: "photos st' = photos st1 @ [p]" "exif p = exifOf (loadTags lib contents')" by blast
  have pe: "processEntry lib directory categoryPath (File name contents) st = Inr (File name contents', st')"
    using assms pf by simp
  have ph: "photos st' = photos st @ [p]" using p(1) ensureThumbDir_frame(1)[OF assms(1)] by simp
  have ex: "(exif_load lib contents' = None \<or>
       (\<exists>tags. exif_load lib contents' = Some tags \<and> (\<forall>k \<in> set lookedUpTags. tags k = None))) \<longrightarrow>
      exif p = unknownExif"
  proof
    assume "exif_load lib contents' = None \<or>
       (\<exists>tags. exif_load lib contents' = Some tags \<and> (\<forall>k \<in> set lookedUpTags. tags k = None))"
    then have "\<forall>k \<in> set lookedUpTags. loadTags lib contents' k = None"
      by (auto simp: loadTags_failed loadTags_loaded)
    from exifOf_absent[OF this] p(2) show "exif p = unknownExif" by simp
  qed
  from pe ph ex show ?thesis by blast
qed

theorem missing_metadata_defaults_witness:
  "(case processEntry example_library [] [] (File ''b.jpg'' [100]) example_state of
      Inl err \<Rightarrow> False
    | Inr (e', st') \<Rightarrow> e' = File ''b.jpg'' [100] \<and> map exif (photos st') = [unknownExif])"
proof -
  have h1: "ensureThumbDir [] example_state = Inr example_state"
    by (simp add: ensureThumbDir_def example_state_def)
  have h2: "allowed (toLowerCase (extname ''b.jpg''))" by code_simp
  from missing_metadata_defaults[OF h1 h2, of example_library "[]" "[100]"]
  obtain contents' st' p where
    eq: "processEntry example_library [] [] (File ''b.jpg'' [100]) example_state
           = Inr (File ''b.jpg'' contents', st')"
    and ph: "photos st' = photos example_state @ [p]"
    and ex: "(exif_load example_library contents' = None \<or>
       (\<exists>tags. exif_load example_library contents' = Some tags \<and>
          (\<forall>k \<in> set lookedUpTags. tags k = None))) \<longrightarrow> exif p = unknownExif"
    by blast
  have "fst (projr (processEntry example_library [] [] (File ''b.jpg'' [100]) example_state))
          = File ''b.jpg'' [100]"
    by code_simp
  with eq have c: "contents' = [100]" by simp
  have "exif_load example_library [100] = None" by (simp add: example_library_def)
  with ex c have "exif p = unknownExif" by simp
  with ph c show ?thesis unfolding eq by (simp add: example_state_def)
qed

text \<open>
  C9. Whenever an iteration of the traversal on a file writes the original, the bytes
  written are the output of a \<^verbatim>\<open>sharp\<close> pipeline on the original bytes that ends with
  the JPEG encoder at quality \<open>90\<close>, whatever the extension of the file, and the file
  keeps its name.
\<close>

theorem rewritten_original_is_jpeg:
  assumes "processEntry lib directory categoryPath (File name contents) st = Inr (e', st')"
    and "writes st' = writes st @ ws"
    and "WroteOriginal (directory @ [name]) \<in> set ws"
  shows "\<exists>tooLarge out. sharp_toBuffer lib (optimizeOps tooLarge) contents = Some out \<and>
     last (optimizeOps tooLarge) = Jpeg full_quality \<and> full_quality = 90 \<and> e' = File name out"
  using assms(1)
proof (cases rule: processEntry_File)
  case (1 st1 contents')
  from 1(3) obtain upd st2 st3 where
    opt: "optimizeOriginal lib (directory @ [name]) name contents
       (st1\<lparr>console := console st1 @ [Processing (directory @ [name])]\<rparr>) = (contents', upd, st2)"
    and gen: "generateThumbnail lib (directory @ [name]) (thumbPathOf directory name) contents' upd st2 = st3"
    and st': "st' = st3\<lparr>photos := photos st3 @
        [buildPhoto lib categoryPath (directory @ [name]) name
           (''/thumbnails/'' @ slashes (join_path (thumbPathOf directory name))) contents' (photoId st3)],
        photoId := photoId st3 + 1\<rparr>"
    by (rule processFile_unfold)
  let ?rp = "directory @ [name]"
  have w2: "writes st2 = writes st @ (if upd then [WroteOriginal ?rp] else [])"
    using optimizeOriginal_frame(4)[OF opt] ensureThumbDir_frame(4)[OF 1(1)] by simp
  have w3: "writes st3 = writes st2 \<or> writes st3 = writes st2 @ [WroteThumbnail ?rp (thumbPathOf directory name)]"
    using generateThumbnail_frame(3)[OF gen] .
  have w4: "writes st' = writes st3" using st' by simp
  have upd using w2 w3 w4 assms(2,3) by (auto split: if_splits)
  with opt have "optimizeOriginal lib ?rp name contents
       (st1\<lparr>console := console st1 @ [Processing ?rp]\<rparr>) = (contents', True, st2)" by simp
  from optimizeOriginal_updated[OF this] obtain m where
    "sharp_toBuffer lib (optimizeOps (isTooLarge m)) contents = Some contents'" by blast
  with 1(4) last_optimizeOps show ?thesis by (auto simp: full_quality_def)
next
  case 2
  have "writes st' = writes st" using ensureThumbDir_frame(4)[OF 2(1)] by simp
  with assms(2,3) show ?thesis by simp
qed

theorem rewritten_original_is_jpeg_witness:
  "(case processEntry example_library [] [] (File ''p.png'' [3000]) example_state of
      Inl err \<Rightarrow> False
    | Inr (e', st') \<Rightarrow>
        WroteOriginal [''p.png''] \<in> set (writes st') \<and>
        (\<exists>tooLarge out. sharp_toBuffer example_library (optimizeOps tooLarge) [3000] = Some out \<and>
           last (optimizeOps tooLarge) = Jpeg full_quality \<and> full_quality = 90 \<and>
           e' = File ''p.png'' out))"
proof -
  have "\<not> isl (processEntry example_library [] [] (File ''p.png'' [3000]) example_state)"
    by code_simp
  then obtain e' st' where
    eq: "processEntry example_library [] [] (File ''p.png'' [3000]) example_state = Inr (e', st')"
    by (cases "processEntry example_library [] [] (File ''p.png'' [3000]) example_state") auto
  have w: "writes st' = writes example_state @ writes st'" by (simp add: example_state_def)
  have "WroteOriginal [''p.png''] \<in>
      set (writes (snd (projr (processEntry example_library [] [] (File ''p.png'' [3000]) example_state))))"
    by code_simp
  with eq have m: "WroteOriginal ([] @ [''p.png'']) \<in> set (writes st')" by simp
  from rewritten_original_is_jpeg[OF eq w m] m show ?thesis unfolding eq by simp
qed

section \<open>The traversal: records\<close>

lemma processDirectory_Cons:
  assumes "processDirectory lib directory categoryPath (e # es) st = Inr (r, st')"
  obtains e' st1 es' where "processEntry lib directory categoryPath e st = Inr (e', st1)"
    "processDirectory lib directory categoryPath es st1 = Inr (es', st')" "r = e' # es'"
  using assms by (auto split: sum.splits prod.splits)

lemma processEntry_Dir:
  assumes "processEntry lib directory categoryPath (Dir name sub) st = Inr (e', st')"
  obtains st1 sub' where "ensureThumbDir directory st = Inr st1"
    "processDirectory lib (directory @ [name]) (directory @ [name]) sub st1 = Inr (sub', st')"
    "e' = Dir name sub'"
  using assms by (auto split: sum.splits prod.splits)

lemma numberedFrom_append:
  "numberedFrom n (ps @ qs) = (numberedFrom n ps \<and> numberedFrom (n + int (length ps)) qs)"
  by (induction ps arbitrary: n) (auto simp: algebra_simps)

lemma numberedFrom_upto: "numberedFrom n ps \<Longrightarrow> map id' ps = [n..n + int (length ps) - 1]"
proof (induction ps arbitrary: n)
  case Nil
  then show ?case by simp
next
  case (Cons p ps)
  from Cons.prems have h: "id' p = n" "numberedFrom (n + 1) ps" by simp_all
  from Cons.IH[OF h(2)] have "map id' ps = [n + 1..n + 1 + int (length ps) - 1]" .
  then have t: "map id' ps = [n + 1..n + int (length ps)]" by (simp add: algebra_simps)
  have "[n..n + int (length (p # ps)) - 1] = n # [n + 1..n + int (length (p # ps)) - 1]"
    by (subst upto.simps) simp
  then have "[n..n + int (length (p # ps)) - 1] = n # [n + 1..n + int (length ps)]"
    by (simp add: algebra_simps)
  with t h(1) show ?case by simp
qed

text \<open>The records a traversal appends, with their identifiers and sources.\<close>

lemma traversal_photos:
  "processDirectory lib directory categoryPath es st = Inr (es', st') \<Longrightarrow>
     \<exists>ps. photos st' = photos st @ ps \<and> numberedFrom (photoId st) ps \<and>
          photoId st' = photoId st + int (length ps) \<and>
          map src ps = map srcOf (filter isImage (map fst (filesOf directory es)))"
  "processEntry lib directory categoryPath e st = Inr (e', st') \<Longrightarrow>
     \<exists>ps. photos st' = photos st @ ps \<and> numberedFrom (photoId st) ps \<and>
          photoId st' = photoId st + int (length ps) \<and>
          map src ps = map srcOf (filter isImage (map fst (filesOfEntry directory e)))"
proof (induction lib directory categoryPath es st and lib directory categoryPath e st
    arbitrary: es' st' and e' st' rule: processDirectory_processEntry.induct)
  case (1 lib directory categoryPath st)
  then show ?case by simp
next
  case (2 lib directory categoryPath e es st)
  from "2.prems" obtain e1 st1 es1 where
    a: "processEntry lib directory categoryPath e st = Inr (e1, st1)"
    and b: "processDirectory lib directory categoryPath es st1 = Inr (es1, st')"
    by (rule processDirectory_Cons)
  from "2.IH"(1)[OF a] obtain ps where ps: "photos st1 = photos st @ ps"
    "numberedFrom (photoId st) ps" "photoId st1 = photoId st + int (length ps)"
    "map src ps = map srcOf (filter isImage (map fst (filesOfEntry directory e)))" by blast
  from "2.IH"(2)[OF a refl b] obtain qs where qs: "photos st' = photos st1 @ qs"
    "numberedFrom (photoId st1) qs" "photoId st' = photoId st1 + int (length qs)"
    "map src qs = map srcOf (filter isImage (map fst (filesOf directory es)))" by blast
  have "photos st' = photos st @ (ps @ qs)" using ps(1) qs(1) by simp
  moreover have "numberedFrom (photoId st) (ps @ qs)"
    using ps(2,3) qs(2) by (simp add: numberedFrom_append)
  moreover have "photoId st' = photoId st + int (length (ps @ qs))" using ps(3) qs(3) by simp
  moreover have "map src (ps @ qs) = map srcOf (filter isImage (map fst (filesOf directory (e # es))))"
    using ps(4) qs(4) by simp
  ultimately show ?case by blast
next
  case (3 lib directory categoryPath name sub st)
  from "3.prems" obtain st1 sub' where
    a: "ensureThumbDir directory st = Inr st1"
    and b: "processDirectory lib (directory @ [name]) (directory @ [name]) sub st1 = Inr (sub', st')"
    by (rule processEntry_Dir)
  from "3.IH"[OF a b] ensureThumbDir_frame(1,2)[OF a] show ?case by simp
next
  case (4 lib directory categoryPath name contents st)
  from "4.prems" show ?case
  proof (cases rule: processEntry_File)
    case (1 st1 contents')
    from processFile_photos[OF 1(3)] obtain p where p: "photos st' = photos st1 @ [p]"
      "id' p = photoId st1" "src p = srcOf (directory @ [name])" "photoId st' = photoId st1 + 1"
      by blast
    have "isImage (directory @ [name])" using 1(2) by (simp add: isImage_def)
    with p ensureThumbDir_frame(1,2)[OF 1(1)] show ?thesis
      by (intro exI[of _ "[p]"]) simp
  next
    case 2
    have "\<not> isImage (directory @ [name])" using 2(2) by (simp add: isImage_def)
    with ensureThumbDir_frame(1,2)[OF 2(1)] show ?thesis by simp
  qed
qed

section \<open>The traversal: the console\<close>

lemma processedPaths_append: "processedPaths (ms @ ns) = processedPaths ms @ processedPaths ns"
  by (induction ms rule: processedPaths.induct) simp_all

lemma optimizeOriginal_console:
  assumes "optimizeOriginal lib rp name b st = (b', upd, st')"
  shows "\<exists>ms. console st' = console st @ ms \<and> processedPaths ms = []"
  using assms by (auto simp: optimizeOriginal_def split: option.splits if_splits)

lemma generateThumbnail_console:
  assumes "generateThumbnail lib rp tp buf upd st = st'"
  shows "\<exists>ms. console st' = console st @ ms \<and> processedPaths ms = []"
  using assms by (auto simp: generateThumbnail_def split: option.splits if_splits)

lemma processFile_console:
  assumes "processFile lib directory categoryPath name contents st = (contents', st')"
  shows "\<exists>ms. console st' = console st @ ms \<and> processedPaths ms = [directory @ [name]]"
proof -
  from assms obtain upd st2 st3 where
    opt: "optimizeOriginal lib (directory @ [name]) name contents
       (st\<lparr>console := console st @ [Processing (directory @ [name])]\<rparr>) = (contents', upd, st2)"
    and gen: "generateThumbnail lib (directory @ [name]) (thumbPathOf directory name) contents' upd st2 = st3"
    and st': "st' = st3\<lparr>photos := photos st3 @
        [buildPhoto lib categoryPath (directory @ [name]) name
           (''/thumbnails/'' @ slashes (join_path (thumbPathOf directory name))) contents' (photoId st3)],
        photoId := photoId st3 + 1\<rparr>"
    by (rule processFile_unfold)
  from optimizeOriginal_console[OF opt] obtain ms where
    ms: "console st2 = console st @ [Processing (directory @ [name])] @ ms" "processedPaths ms = []"
    by auto
  from generateThumbnail_console[OF gen] obtain ns where
    ns: "console st3 = console st2 @ ns" "processedPaths ns = []" by auto
  have "console st' = console st @ ([Processing (directory @ [name])] @ ms @ ns)"
    using ms(1) ns(1) st' by simp
  moreover have "processedPaths ([Processing (directory @ [name])] @ ms @ ns) = [directory @ [name]]"
    using ms(2) ns(2) by (simp add: processedPaths_append)
  ultimately show ?thesis by blast
qed

lemma traversal_console:
  "processDirectory lib directory categoryPath es st = Inr (es', st') \<Longrightarrow>
     \<exists>ms. console st' = console st @ ms \<and>
          processedPaths ms = filter isImage (map fst (filesOf directory es))"
  "processEntry lib directory categoryPath e st = Inr (e', st') \<Longrightarrow>
     \<exists>ms. console st' = console st @ ms \<and>
          processedPaths ms = filter isImage (map fst (filesOfEntry directory e))"
proof (induction lib directory categoryPath es st and lib directory categoryPath e st
    arbitrary: es' st' and e' st' rule: processDirectory_processEntry.induct)
  case (1 lib directory categoryPath st)
  then show ?case by simp
next
  case (2 lib directory categoryPath e es st)
  from "2.prems" obtain e1 st1 es1 where
    a: "processEntry lib directory categoryPath e st = Inr (e1, st1)"
    and b: "processDirectory lib directory categoryPath es st1 = Inr (es1, st')"
    by (rule processDirectory_Cons)
  from "2.IH"(1)[OF a] obtain ms where ms: "console st1 = console st @ ms"
    "processedPaths ms = filter isImage (map fst (filesOfEntry directory e))" by blast
  from "2.IH"(2)[OF a refl b] obtain ns where ns: "console st' = console st1 @ ns"
    "processedPaths ns = filter isImage (map fst (filesOf directory es))" by blast
  have "console st' = console st @ (ms @ ns)" using ms(1) ns(1) by simp
  moreover have "processedPaths (ms @ ns) = filter isImage (map fst (filesOf directory (e # es)))"
    using ms(2) ns(2) by (simp add: processedPaths_append)
  ultimately show ?case by blast
next
  case (3 lib directory categoryPath name sub st)
  from "3.prems" obtain st1 sub' where
    a: "ensureThumbDir directory st = Inr st1"
    and b: "processDirectory lib (directory @ [name]) (directory @ [name]) sub st1 = Inr (sub', st')"
    by (rule processEntry_Dir)
  from "3.IH"[OF a b] ensureThumbDir_frame(3)[OF a] show ?case by simp
next
  case (4 lib directory categoryPath name contents st)
  from "4.prems" show ?case
  proof (cases rule: processEntry_File)
    case (1 st1 contents')
    have "isImage (directory @ [name])" using 1(2) by (simp add: isImage_def)
    with processFile_console[OF 1(3)] ensureThumbDir_frame(3)[OF 1(1)] show ?thesis by simp
  next
    case 2
    have "\<not> isImage (directory @ [name])" using 2(2) by (simp add: isImage_def)
    with ensureThumbDir_frame(3)[OF 2(1)] show ?thesis by simp
  qed
qed

section \<open>The traversal: the thumbnail tree\<close>

lemma grows_refl: "grows s s"
  by (simp add: grows_def)

lemma grows_trans: "grows s t \<Longrightarrow> grows t u \<Longrightarrow> grows s u"
  by (simp add: grows_def)

lemma grows_exists: "grows s s' \<Longrightarrow> s q \<noteq> None \<Longrightarrow> s' q \<noteq> None"
proof -
  assume g: "grows s s'" and "s q \<noteq> None"
  then obtain n where n: "s q = Some n" by auto
  show ?thesis
  proof (cases n)
    case (FileN b)
    with n g have "is_file (s' q)" by (simp add: grows_def is_file_def)
    then show ?thesis by (auto simp: is_file_def split: option.splits)
  next
    case DirN
    with n g show ?thesis by (simp add: grows_def)
  qed
qed

lemma mkdirSync_grows:
  assumes "mkdirSync s p = Inr s'"
  shows "grows s s'" "s' p = Some DirN"
proof -
  from assms have nf: "\<not> list_ex (\<lambda>q. is_file (s q)) (prefixes p)"
    and s': "s' = (\<lambda>q. if prefix q p then Some DirN else s q)"
    by (auto simp: mkdirSync_def split: if_splits)
  from nf have "\<And>q. prefix q p \<Longrightarrow> \<not> is_file (s q)"
    by (auto simp: list_ex_iff)
  then show "grows s s'" unfolding s' grows_def by auto
  show "s' p = Some DirN" unfolding s' by simp
qed

lemma writeFile_grows:
  assumes "writeFile s p b = Some s'"
  shows "grows s s'"
  using assms by (auto simp: writeFile_def grows_def is_file_def split: if_splits)

lemma ensureThumbDir_grows:
  assumes "ensureThumbDir d st = Inr st1"
  shows "grows (thumbs st) (thumbs st1)" "thumbs st1 d \<noteq> None"
    "thumbs st d = None \<Longrightarrow> thumbs st1 d = Some DirN"
  using assms mkdirSync_grows[of "thumbs st" d]
  by (auto simp: ensureThumbDir_def grows_refl split: if_splits sum.splits)

lemma generateThumbnail_grows:
  assumes "generateThumbnail lib rp tp buf upd st = st'"
  shows "grows (thumbs st) (thumbs st')"
  using assms writeFile_grows[of "thumbs st" tp]
  by (auto simp: generateThumbnail_def grows_refl split: option.splits if_splits)

lemma processFile_grows:
  assumes "processFile lib directory categoryPath name contents st = (contents', st')"
  shows "grows (thumbs st) (thumbs st')"
proof -
  from assms obtain upd st2 st3 where
    opt: "optimizeOriginal lib (directory @ [name]) name contents
       (st\<lparr>console := console st @ [Processing (directory @ [name])]\<rparr>) = (contents', upd, st2)"
    and gen: "generateThumbnail lib (directory @ [name]) (thumbPathOf directory name) contents' upd st2 = st3"
    and st': "st' = st3\<lparr>photos := photos st3 @
        [buildPhoto lib categoryPath (directory @ [name]) name
           (''/thumbnails/'' @ slashes (join_path (thumbPathOf directory name))) contents' (photoId st3)],
        photoId := photoId st3 + 1\<rparr>"
    by (rule processFile_unfold)
  have "thumbs st2 = thumbs st" using optimizeOriginal_frame(3)[OF opt] by simp
  with generateThumbnail_grows[OF gen] st' show ?thesis by simp
qed

lemma traversal_grows:
  "processDirectory lib directory categoryPath es st = Inr (es', st') \<Longrightarrow>
     grows (thumbs st) (thumbs st')"
  "processEntry lib directory categoryPath e st = Inr (e', st') \<Longrightarrow>
     grows (thumbs st) (thumbs st')"
proof (induction lib directory categoryPath es st and lib directory categoryPath e st
    arbitrary: es' st' and e' st' rule: processDirectory_processEntry.induct)
  case (1 lib directory categoryPath st)
  then show ?case by (simp add: grows_refl)
next
  case (2 lib directory categoryPath e es st)
  from "2.prems" obtain e1 st1 es1 where
    a: "processEntry lib directory categoryPath e st = Inr (e1, st1)"
    and b: "processDirectory lib directory categoryPath es st1 = Inr (es1, st')"
    by (rule processDirectory_Cons)
  from "2.IH"(1)[OF a] "2.IH"(2)[OF a refl b] show ?case by (rule grows_trans)
next
  case (3 lib directory categoryPath name sub st)
  from "3.prems" obtain st1 sub' where
    a: "ensureThumbDir directory st = Inr st1"
    and b: "processDirectory lib (directory @ [name]) (directory @ [name]) sub st1 = Inr (sub', st')"
    by (rule processEntry_Dir)
  from ensureThumbDir_grows(1)[OF a] "3.IH"[OF a b] show ?case by (rule grows_trans)
next
  case (4 lib directory categoryPath name contents st)
  from "4.prems" show ?case
  proof (cases rule: processEntry_File)
    case (1 st1 contents')
    from ensureThumbDir_grows(1)[OF 1(1)] processFile_grows[OF 1(3)] show ?thesis
      by (rule grows_trans)
  next
    case 2
    from ensureThumbDir_grows(1)[OF 2(1)] show ?thesis .
  qed
qed

lemma processEntry_parent:
  assumes "processEntry lib directory categoryPath e st = Inr (e', st')"
  shows "thumbs st' directory \<noteq> None"
    "thumbs st directory = None \<Longrightarrow> thumbs st' directory = Some DirN"
proof -
  obtain st1 where a: "ensureThumbDir directory st = Inr st1" "grows (thumbs st1) (thumbs st')"
  proof (cases e)
    case (File name contents)
    with assms have "processEntry lib directory categoryPath (File name contents) st = Inr (e', st')"
      by simp
    then show ?thesis
    proof (cases rule: processEntry_File)
      case (1 st1 contents')
      with processFile_grows[OF 1(3)] that show ?thesis by blast
    next
      case 2
      with grows_refl that show ?thesis by blast
    qed
  next
    case (Dir name sub)
    with assms have "processEntry lib directory categoryPath (Dir name sub) st = Inr (e', st')"
      by simp
    then obtain st1 sub' where
      "ensureThumbDir directory st = Inr st1"
      "processDirectory lib (directory @ [name]) (directory @ [name]) sub st1 = Inr (sub', st')"
      by (rule processEntry_Dir)
    with traversal_grows(1) that show ?thesis by blast
  qed
  from grows_exists[OF a(2) ensureThumbDir_grows(2)[OF a(1)]]
  show "thumbs st' directory \<noteq> None" .
  assume "thumbs st directory = None"
  from ensureThumbDir_grows(3)[OF a(1) this] a(2)
  show "thumbs st' directory = Some DirN" by (simp add: grows_def)
qed

lemma traversal_parents:
  "processDirectory lib directory categoryPath es st = Inr (es', st') \<Longrightarrow>
     \<forall>q \<in> set (parentsOf directory es). thumbs st' q \<noteq> None"
  "processEntry lib directory categoryPath e st = Inr (e', st') \<Longrightarrow>
     \<forall>q \<in> set (parentsOfEntry directory e). thumbs st' q \<noteq> None"
proof (induction lib directory categoryPath es st and lib directory categoryPath e st
    arbitrary: es' st' and e' st' rule: processDirectory_processEntry.induct)
  case (1 lib directory categoryPath st)
  then show ?case by simp
next
  case (2 lib directory categoryPath e es st)
  from "2.prems" obtain e1 st1 es1 where
    a: "processEntry lib directory categoryPath e st = Inr (e1, st1)"
    and b: "processDirectory lib directory categoryPath es st1 = Inr (es1, st')"
    by (rule processDirectory_Cons)
  have g: "grows (thumbs st1) (thumbs st')" using traversal_grows(1)[OF b] .
  have "thumbs st1 directory \<noteq> None" using processEntry_parent(1)[OF a] .
  then have p1: "thumbs st' directory \<noteq> None" using g grows_exists by blast
  have p2: "\<forall>q \<in> set (parentsOfEntry directory e). thumbs st' q \<noteq> None"
    using "2.IH"(1)[OF a] g grows_exists by blast
  from p1 p2 "2.IH"(2)[OF a refl b] show ?case by auto
next
  case (3 lib directory categoryPath name sub st)
  from "3.prems" obtain st1 sub' where
    a: "ensureThumbDir directory st = Inr st1"
    and b: "processDirectory lib (directory @ [name]) (directory @ [name]) sub st1 = Inr (sub', st')"
    by (rule processEntry_Dir)
  from "3.IH"[OF a b] show ?case by simp
next
  case (4 lib directory categoryPath name contents st)
  then show ?case by simp
qed

section \<open>The script as a whole\<close>

lemma photosDir_ensureDirectories:
  "photosDir (ensureDirectories w) = Some (case photosDir w of None \<Rightarrow> [] | Some es \<Rightarrow> es)"
  by (simp add: ensureDirectories_def Let_def split: option.splits)

lemma main_Inr:
  assumes "main lib w = Inr (w', st)"
  obtains es' stf where
    "processDirectory lib [] [] (case photosDir w of None \<Rightarrow> [] | Some es \<Rightarrow> es)
       \<lparr> photos = [], photoId = 1, thumbs = thumbsDir (ensureDirectories w),
         console = [Scanning], writes = [] \<rparr> = Inr (es', stf)"
    "w' = \<lparr> photosDir = Some es', thumbsDir = thumbs stf, outputFile = Some (photos stf) \<rparr>"
    "st = stf\<lparr>console := console stf @ [Success (length (photos stf)), Saved]\<rparr>"
  using assms photosDir_ensureDirectories[of w]
  by (auto simp: main_def generateGallery_def Let_def split: sum.splits prod.splits)

text \<open>
  On its own, \<^verbatim>\<open>generateGallery\<close> leaves the manifest file alone when the source root is
  absent, and prints that the directory was not found. The script never takes that
  branch: the directory checks at its top create the source root first.
\<close>

lemma generateGallery_absent:
  assumes "photosDir w = None"
  shows "generateGallery lib w =
    Inr (w, \<lparr> photos = [], photoId = 1, thumbs = thumbsDir w,
               console = [Scanning, NotFound], writes = [] \<rparr>)"
  using assms by (simp add: generateGallery_def)

section \<open>Claims about a whole run\<close>

text \<open>
  C4. When the source root is absent, the script returns normally, the manifest file
  holds the empty list, and the console reports zero photos. (The script creates the
  missing root before the traversal, which then finds no entry.)
\<close>

theorem absent_source_root:
  assumes "photosDir w = None"
  shows "\<exists>w' st. main lib w = Inr (w', st) \<and> photosDir w' = Some [] \<and>
    outputFile w' = Some [] \<and> photos st = [] \<and>
    console st = [Scanning, Success 0, Saved] \<and> writes st = []"
  using assms by (simp add: main_def generateGallery_def ensureDirectories_def Let_def)

theorem absent_source_root_witness:
  "(case main example_library (example_world\<lparr>photosDir := None\<rparr>) of
      Inl err \<Rightarrow> False
    | Inr (w', st) \<Rightarrow> outputFile w' = Some [] \<and> console st = [Scanning, Success 0, Saved])"
proof -
  have h: "photosDir (example_world\<lparr>photosDir := None\<rparr>) = None" by simp
  from absent_source_root[OF h, of example_library] show ?thesis by auto
qed

text \<open>
  C5. After a run that returns, the manifest file holds the records of the run, and
  their identifiers, in manifest order, are the integers from \<open>1\<close> to the number of
  records.
\<close>

theorem identifiers_sequential:
  assumes "main lib w = Inr (w', st)"
  shows "outputFile w' = Some (photos st) \<and> map id' (photos st) = [1..int (length (photos st))]"
proof -
  from assms obtain es' stf where
    run: "processDirectory lib [] [] (case photosDir w of None \<Rightarrow> [] | Some es \<Rightarrow> es)
       \<lparr> photos = [], photoId = 1, thumbs = thumbsDir (ensureDirectories w),
         console = [Scanning], writes = [] \<rparr> = Inr (es', stf)"
    and w': "w' = \<lparr> photosDir = Some es', thumbsDir = thumbs stf, outputFile = Some (photos stf) \<rparr>"
    and st: "st = stf\<lparr>console := console stf @ [Success (length (photos stf)), Saved]\<rparr>"
    by (rule main_Inr)
  from traversal_photos(1)[OF run] have "numberedFrom 1 (photos stf)" by auto
  from numberedFrom_upto[OF this] have "map id' (photos stf) = [1..int (length (photos stf))]"
    by simp
  with w' st show ?thesis by simp
qed

theorem identifiers_sequential_witness:
  "(case main example_library example_world of
      Inl err \<Rightarrow> False
    | Inr (w', st) \<Rightarrow> outputFile w' = Some (photos st) \<and> map id' (photos st) = [1, 2, 3])"
proof -
  have "\<not> isl (main example_library example_world)" by code_simp
  then obtain w' st where eq: "main example_library example_world = Inr (w', st)"
    by (cases "main example_library example_world") auto
  have "length (photos (snd (projr (main example_library example_world)))) = 3" by code_simp
  with eq have n: "length (photos st) = 3" by simp
  have u: "[1..3::int] = [1, 2, 3]" by code_simp
  from identifiers_sequential[OF eq] n u show ?thesis unfolding eq by simp
qed

text \<open>
  C6. After a run that returns, the \<^verbatim>\<open>src\<close> fields of the manifest's records are, in
  order, those of the files of the source tree whose lower-cased extension is in the
  allow-list, and the console names exactly these files as processed. An iteration of
  the traversal on a file with any other extension leaves the file, the records, the
  identifier counter, the console and the written files as they were.
\<close>

theorem unsupported_extensions_skipped:
  "(main lib w = Inr (w', st) \<and> photosDir w = Some es \<longrightarrow>
      outputFile w' = Some (photos st) \<and>
      map src (photos st) = map srcOf (filter isImage (map fst (filesOf [] es))) \<and>
      processedPaths (console st) = filter isImage (map fst (filesOf [] es))) \<and>
   (\<not> allowed (toLowerCase (extname name)) \<and>
    processEntry lib directory categoryPath (File name contents) st0 = Inr (e1, st1) \<longrightarrow>
      e1 = File name contents \<and> photos st1 = photos st0 \<and> photoId st1 = photoId st0 \<and>
      console st1 = console st0 \<and> writes st1 = writes st0)"
proof -
  have a: "main lib w = Inr (w', st) \<and> photosDir w = Some es \<longrightarrow>
      outputFile w' = Some (photos st) \<and>
      map src (photos st) = map srcOf (filter isImage (map fst (filesOf [] es))) \<and>
      processedPaths (console st) = filter isImage (map fst (filesOf [] es))"
  proof
    assume h: "main lib w = Inr (w', st) \<and> photosDir w = Some es"
    then obtain es' stf where
      run: "processDirectory lib [] [] es
         \<lparr> photos = [], photoId = 1, thumbs = thumbsDir (ensureDirectories w),
           console = [Scanning], writes = [] \<rparr> = Inr (es', stf)"
      and w': "w' = \<lparr> photosDir = Some es', thumbsDir = thumbs stf, outputFile = Some (photos stf) \<rparr>"
      and st: "st = stf\<lparr>console := console stf @ [Success (length (photos stf)), Saved]\<rparr>"
      by (auto elim: main_Inr)
    from traversal_photos(1)[OF run]
    have p: "map src (photos stf) = map srcOf (filter isImage (map fst (filesOf [] es)))" by auto
    from traversal_console(1)[OF run] obtain ms where
      ms: "console stf = [Scanning] @ ms"
      "processedPaths ms = filter isImage (map fst (filesOf [] es))" by auto
    have "processedPaths (console st) = filter isImage (map fst (filesOf [] es))"
      unfolding st using ms by (simp add: processedPaths_append)
    with p w' st
    show "outputFile w' = Some (photos st) \<and>
      map src (photos st) = map srcOf (filter isImage (map fst (filesOf [] es))) \<and>
      processedPaths (console st) = filter isImage (map fst (filesOf [] es))" by simp
  qed
  have b: "\<not> allowed (toLowerCase (extname name)) \<and>
    processEntry lib directory categoryPath (File name contents) st0 = Inr (e1, st1) \<longrightarrow>
      e1 = File name contents \<and> photos st1 = photos st0 \<and> photoId st1 = photoId st0 \<and>
      console st1 = console st0 \<and> writes st1 = writes st0"
  proof
    assume h: "\<not> allowed (toLowerCase (extname name)) \<and>
      processEntry lib directory categoryPath (File name contents) st0 = Inr (e1, st1)"
    then have "processEntry lib directory categoryPath (File name contents) st0 = Inr (e1, st1)"
      by simp
    then show "e1 = File name contents \<and> photos st1 = photos st0 \<and> photoId st1 = photoId st0 \<and>
      console st1 = console st0 \<and> writes st1 = writes st0"
    proof (cases rule: processEntry_File)
      case (1 st2 contents')
      with h show ?thesis by simp
    next
      case 2
      with ensureThumbDir_frame[OF 2(1)] show ?thesis by simp
    qed
  qed
  from a b show ?thesis by blast
qed

theorem unsupported_extensions_skipped_witness:
  "(case main example_library example_world of
      Inl err \<Rightarrow> False
    | Inr (w', st) \<Rightarrow>
        map src (photos st) = [''/photos/a.jpg'', ''/photos/trips/b-c.PNG'', ''/photos/trips/d.webp''] \<and>
        processedPaths (console st) = [[''a.jpg''], [''trips'', ''b-c.PNG''], [''trips'', ''d.webp'']]) \<and>
   (case processEntry example_library [] [] (File ''notes.txt'' [1]) example_state of
      Inl err \<Rightarrow> False
    | Inr (e1, st1) \<Rightarrow> e1 = File ''notes.txt'' [1] \<and> photos st1 = [] \<and> console st1 = [Scanning])"
proof -
  have "\<not> isl (main example_library example_world)" by code_simp
  then obtain w' st where eq: "main example_library example_world = Inr (w', st)"
    by (cases "main example_library example_world") auto
  have t: "photosDir example_world = Some example_tree" by (simp add: example_world_def)
  have f: "filter isImage (map fst (filesOf [] example_tree)) =
      [[''a.jpg''], [''trips'', ''b-c.PNG''], [''trips'', ''d.webp'']]" by code_simp
  have s: "map srcOf [[''a.jpg''], [''trips'', ''b-c.PNG''], [''trips'', ''d.webp'']] =
      [''/photos/a.jpg'', ''/photos/trips/b-c.PNG'', ''/photos/trips/d.webp'']" by code_simp
  have "\<not> isl (processEntry example_library [] [] (File ''notes.txt'' [1]) example_state)"
    by code_simp
  then obtain e1 st1 where
    eq1: "processEntry example_library [] [] (File ''notes.txt'' [1]) example_state = Inr (e1, st1)"
    by (cases "processEntry example_library [] [] (File ''notes.txt'' [1]) example_state") auto
  have n: "\<not> allowed (toLowerCase (extname ''notes.txt''))" by code_simp
  from unsupported_extensions_skipped[of example_library example_world w' st example_tree
      "''notes.txt''" "[]" "[]" "[1]" example_state e1 st1] eq t eq1 n
  have "map src (photos st) = map srcOf (filter isImage (map fst (filesOf [] example_tree))) \<and>
      processedPaths (console st) = filter isImage (map fst (filesOf [] example_tree)) \<and>
      e1 = File ''notes.txt'' [1] \<and> photos st1 = photos example_state \<and>
      console st1 = console example_state" by blast
  then show ?thesis unfolding eq eq1 f s by (simp add: example_state_def)
qed

text \<open>
  C10. An iteration of the traversal on any entry, a subdirectory or a file of any
  extension, leaves the mirrored path of the entry's parent directory existing in the
  thumbnail tree, and as a directory if the path was missing before. After a run that
  returns, the mirrored path of every source directory with at least one entry exists,
  also when none of its files has an allowed extension.
\<close>

theorem thumbnail_directories_mirrored:
  "(processEntry lib directory categoryPath e st0 = Inr (e1, st1) \<longrightarrow>
      thumbs st1 directory \<noteq> None \<and>
      (thumbs st0 directory = None \<longrightarrow> thumbs st1 directory = Some DirN)) \<and>
   (main lib w = Inr (w', st) \<and> photosDir w = Some es \<longrightarrow>
      (\<forall>q \<in> set (parentsOf [] es). thumbsDir w' q \<noteq> None))"
proof -
  have a: "processEntry lib directory categoryPath e st0 = Inr (e1, st1) \<longrightarrow>
      thumbs st1 directory \<noteq> None \<and>
      (thumbs st0 directory = None \<longrightarrow> thumbs st1 directory = Some DirN)"
    using processEntry_parent[of lib directory categoryPath e st0 e1 st1] by blast
  have b: "main lib w = Inr (w', st) \<and> photosDir w = Some es \<longrightarrow>
      (\<forall>q \<in> set (parentsOf [] es). thumbsDir w' q \<noteq> None)"
  proof
    assume h: "main lib w = Inr (w', st) \<and> photosDir w = Some es"
    then obtain es' stf where
      run: "processDirectory lib [] [] es
         \<lparr> photos = [], photoId = 1, thumbs = thumbsDir (ensureDirectories w),
           console = [Scanning], writes = [] \<rparr> = Inr (es', stf)"
      and w': "w' = \<lparr> photosDir = Some es', thumbsDir = thumbs stf, outputFile = Some (photos stf) \<rparr>"
      by (auto elim: main_Inr)
    from traversal_parents(1)[OF run] w'
    show "\<forall>q \<in> set (parentsOf [] es). thumbsDir w' q \<noteq> None" by simp
  qed
  from a b show ?thesis by blast
qed

theorem thumbnail_directories_mirrored_witness:
  "(case processEntry example_library [''docs''] [''docs''] (File ''x.md'' []) example_state of
      Inl err \<Rightarrow> False
    | Inr (e1, st1) \<Rightarrow> thumbs st1 [''docs''] = Some DirN) \<and>
   (case main example_library example_world of
      Inl err \<Rightarrow> False
    | Inr (w', st) \<Rightarrow> thumbsDir w' [''docs''] \<noteq> None \<and> thumbsDir w' [''trips''] \<noteq> None)"
proof -
  have "\<not> isl (processEntry example_library [''docs''] [''docs''] (File ''x.md'' []) example_state)"
    by code_simp
  then obtain e1 st1 where
    eq1: "processEntry example_library [''docs''] [''docs''] (File ''x.md'' []) example_state
            = Inr (e1, st1)"
    by (cases "processEntry example_library [''docs''] [''docs''] (File ''x.md'' []) example_state") auto
  have m: "thumbs example_state [''docs''] = None" by (simp add: example_state_def)
  have "\<not> isl (main example_library example_world)" by code_simp
  then obtain w' st where eq: "main example_library example_world = Inr (w', st)"
    by (cases "main example_library example_world") auto
  have t: "photosDir example_world = Some example_tree" by (simp add: example_world_def)
  have d: "[''docs''] \<in> set (parentsOf [] example_tree) \<and> [''trips''] \<in> set (parentsOf [] example_tree)"
    by code_simp
  from thumbnail_directories_mirrored[of example_library "[''docs'']" "[''docs'']" "File ''x.md'' []"
      example_state e1 st1 example_world w' st example_tree] eq1 m eq t d
  have "thumbs st1 [''docs''] = Some DirN \<and> thumbsDir w' [''docs''] \<noteq> None \<and>
      thumbsDir w' [''trips''] \<noteq> None" by blast
  then show ?thesis unfolding eq eq1 by simp
qed

section \<open>A second run\<close>













section \<open>The claim about a second run\<close>



end
